theory Spec2Isabelle
  imports Complex_Main
begin

section \<open>Double-precision values\<close>

text \<open>
  The program computes with C++ \<^verbatim>\<open>double\<close>. A value is a finite number, one of the two
  infinities, or not-a-number. Finite results are kept exact (rounding and underflow are
  not modelled, and zero carries no sign: it behaves as \<^verbatim>\<open>+0.0\<close>); a finite result whose
  magnitude exceeds the largest double becomes the infinity of its sign, as IEEE-754
  overflow does. The special values follow IEEE-754: every operation on NaN gives NaN,
  every comparison with NaN is false, \<open>\<infinity> - \<infinity>\<close>, \<open>0 \<times> \<infinity>\<close>, \<open>\<infinity> / \<infinity>\<close> and \<open>0 / 0\<close> are NaN.
  The rolling z-score, whose entries depend on the rounding, is modelled a second time
  with correctly rounded operations (section ``Correctly rounded double arithmetic'').
\<close>

datatype double = Fin real | PInf | NInf | NaN

definition DBL_MAX :: real where
  "DBL_MAX = 2 ^ 1024 - 2 ^ 971"

definition overflow :: "real \<Rightarrow> double" where
  "overflow r = (if DBL_MAX < r then PInf else if r < - DBL_MAX then NInf else Fin r)"

definition is_double :: "double \<Rightarrow> bool" where
  "is_double d = (case d of Fin r \<Rightarrow> \<bar>r\<bar> \<le> DBL_MAX | _ \<Rightarrow> True)"

definition isnan :: "double \<Rightarrow> bool" where
  "isnan d = (case d of NaN \<Rightarrow> True | _ \<Rightarrow> False)"

definition isinf :: "double \<Rightarrow> bool" where
  "isinf d = (case d of PInf \<Rightarrow> True | NInf \<Rightarrow> True | _ \<Rightarrow> False)"

definition dneg :: "double \<Rightarrow> double" where
  "dneg d = (case d of Fin a \<Rightarrow> Fin (- a) | PInf \<Rightarrow> NInf | NInf \<Rightarrow> PInf | NaN \<Rightarrow> NaN)"

definition dadd :: "double \<Rightarrow> double \<Rightarrow> double" where
  "dadd x y =
     (case x of
        NaN \<Rightarrow> NaN
      | PInf \<Rightarrow> (case y of NaN \<Rightarrow> NaN | NInf \<Rightarrow> NaN | _ \<Rightarrow> PInf)
      | NInf \<Rightarrow> (case y of NaN \<Rightarrow> NaN | PInf \<Rightarrow> NaN | _ \<Rightarrow> NInf)
      | Fin a \<Rightarrow> (case y of NaN \<Rightarrow> NaN | PInf \<Rightarrow> PInf | NInf \<Rightarrow> NInf
                  | Fin b \<Rightarrow> overflow (a + b)))"

definition dsub :: "double \<Rightarrow> double \<Rightarrow> double" where
  "dsub x y = dadd x (dneg y)"

text \<open>The sign of an infinity times (or divided by) a finite value: zero counts as \<open>+0\<close>.\<close>

definition signed_inf :: "bool \<Rightarrow> double" where
  "signed_inf positive = (if positive then PInf else NInf)"

definition dmul :: "double \<Rightarrow> double \<Rightarrow> double" where
  "dmul x y =
     (case x of
        NaN \<Rightarrow> NaN
      | PInf \<Rightarrow> (case y of NaN \<Rightarrow> NaN | PInf \<Rightarrow> PInf | NInf \<Rightarrow> NInf
                 | Fin b \<Rightarrow> if b = 0 then NaN else signed_inf (0 < b))
      | NInf \<Rightarrow> (case y of NaN \<Rightarrow> NaN | PInf \<Rightarrow> NInf | NInf \<Rightarrow> PInf
                 | Fin b \<Rightarrow> if b = 0 then NaN else signed_inf (b < 0))
      | Fin a \<Rightarrow> (case y of NaN \<Rightarrow> NaN
                 | PInf \<Rightarrow> if a = 0 then NaN else signed_inf (0 < a)
                 | NInf \<Rightarrow> if a = 0 then NaN else signed_inf (a < 0)
                 | Fin b \<Rightarrow> overflow (a * b)))"

definition ddiv :: "double \<Rightarrow> double \<Rightarrow> double" where
  "ddiv x y =
     (case x of
        NaN \<Rightarrow> NaN
      | PInf \<Rightarrow> (case y of Fin b \<Rightarrow> signed_inf (0 \<le> b) | _ \<Rightarrow> NaN)
      | NInf \<Rightarrow> (case y of Fin b \<Rightarrow> signed_inf (b < 0) | _ \<Rightarrow> NaN)
      | Fin a \<Rightarrow> (case y of NaN \<Rightarrow> NaN | PInf \<Rightarrow> Fin 0 | NInf \<Rightarrow> Fin 0
                 | Fin b \<Rightarrow> if b = 0 then (if a = 0 then NaN else signed_inf (0 < a))
                            else overflow (a / b)))"

definition dsqrt :: "double \<Rightarrow> double" where
  "dsqrt d = (case d of Fin a \<Rightarrow> if a < 0 then NaN else Fin (sqrt a)
              | PInf \<Rightarrow> PInf | NInf \<Rightarrow> NaN | NaN \<Rightarrow> NaN)"

definition dlt :: "double \<Rightarrow> double \<Rightarrow> bool" where
  "dlt x y =
     (case x of
        NaN \<Rightarrow> False
      | PInf \<Rightarrow> False
      | NInf \<Rightarrow> (case y of Fin b \<Rightarrow> True | PInf \<Rightarrow> True | _ \<Rightarrow> False)
      | Fin a \<Rightarrow> (case y of Fin b \<Rightarrow> a < b | PInf \<Rightarrow> True | _ \<Rightarrow> False))"

definition dle :: "double \<Rightarrow> double \<Rightarrow> bool" where
  "dle x y =
     (case x of
        NaN \<Rightarrow> False
      | PInf \<Rightarrow> (case y of PInf \<Rightarrow> True | _ \<Rightarrow> False)
      | NInf \<Rightarrow> (case y of NaN \<Rightarrow> False | _ \<Rightarrow> True)
      | Fin a \<Rightarrow> (case y of Fin b \<Rightarrow> a \<le> b | PInf \<Rightarrow> True | _ \<Rightarrow> False))"

definition dgt :: "double \<Rightarrow> double \<Rightarrow> bool" where
  "dgt x y = dlt y x"

definition dge :: "double \<Rightarrow> double \<Rightarrow> bool" where
  "dge x y = dle y x"

text \<open>\<^verbatim>\<open>==\<close> on doubles: false as soon as one side is NaN.\<close>

definition deq :: "double \<Rightarrow> double \<Rightarrow> bool" where
  "deq x y = (\<not> isnan x \<and> \<not> isnan y \<and> x = y)"

text \<open>Conversion of a \<^verbatim>\<open>size_t\<close> or an \<^verbatim>\<open>int\<close> to double.\<close>

definition of_size :: "nat \<Rightarrow> double" where
  "of_size n = Fin (real n)"

definition of_int_d :: "int \<Rightarrow> double" where
  "of_int_d k = Fin (real_of_int k)"

text \<open>\<^verbatim>\<open>size_t\<close> arithmetic is modulo \<open>2^64\<close>.\<close>

definition SIZE_MOD :: nat where
  "SIZE_MOD = 2 ^ 64"

definition size_sub :: "nat \<Rightarrow> nat \<Rightarrow> nat" where
  "size_sub a b = (a + SIZE_MOD - b mod SIZE_MOD) mod SIZE_MOD"

section \<open>Utilities: the statistics library\<close>

text \<open>\<^verbatim>\<open>std::accumulate(begin, end, 0.0)\<close>: a left fold with \<^verbatim>\<open>+\<close>.\<close>

definition accumulate :: "double list \<Rightarrow> double \<Rightarrow> double" where
  "accumulate data init = foldl dadd init data"

definition mean :: "double list \<Rightarrow> double" where
  "mean data =
     (if data = [] then NaN
      else ddiv (accumulate data (Fin 0)) (of_size (length data)))"

definition standardDeviation :: "double list \<Rightarrow> double" where
  "standardDeviation data =
     (if length data < 2 then NaN
      else
        let avg = mean data;
            sum_squared_diff =
              foldl (\<lambda>s v. let diff = dsub v avg in dadd s (dmul diff diff)) (Fin 0) data
        in dsqrt (ddiv sum_squared_diff (of_size (length data - 1))))"

text \<open>The observations with indices \<open>i - window + 1 .. i\<close>.\<close>

definition window_data :: "double list \<Rightarrow> nat \<Rightarrow> nat \<Rightarrow> double list" where
  "window_data data window i = take window (drop (i + 1 - window) data)"

text \<open>
  The three rolling functions start from a vector of NaN of the input's length and run
  \<^verbatim>\<open>for (size_t i = window - 1; i < data.size(); ++i)\<close>, each iteration writing entry
  \<open>i\<close> only. For \<open>window = 0\<close> the start index wraps around to the largest \<^verbatim>\<open>size_t\<close>, so
  no iteration runs.
\<close>

definition rollingMean :: "double list \<Rightarrow> nat \<Rightarrow> double list" where
  "rollingMean data window =
     (if length data < window then replicate (length data) NaN
      else if window = 0 then replicate (length data) NaN
      else map (\<lambda>i. if i < window - 1 then NaN
                     else ddiv (foldl dadd (Fin 0) (window_data data window i)) (of_size window))
             [0..<length data])"

definition rollingStdDev :: "double list \<Rightarrow> nat \<Rightarrow> double list" where
  "rollingStdDev data window =
     (if length data < window then replicate (length data) NaN
      else if window = 0 then replicate (length data) NaN
      else map (\<lambda>i. if i < window - 1 then NaN
                     else standardDeviation (window_data data window i))
             [0..<length data])"

definition rollingZScore :: "double list \<Rightarrow> nat \<Rightarrow> double list" where
  "rollingZScore data window =
     (if length data < window then replicate (length data) NaN
      else
        let means = rollingMean data window;
            stdDevs = rollingStdDev data window
        in if window = 0 then replicate (length data) NaN
           else map (\<lambda>i. if i < window - 1 then NaN
                          else if dgt (stdDevs ! i) (Fin 0)
                               then ddiv (dsub (data ! i) (means ! i)) (stdDevs ! i)
                               else NaN)
                  [0..<length data])"

record RegressionResult =
  alpha :: double
  beta :: double
  rsquared :: double
  residuals :: "double list"

record AdfResult =
  testStatistic :: double
  pValue :: double
  isStationary :: bool

definition linearRegression :: "double list \<Rightarrow> double list \<Rightarrow> RegressionResult" where
  "linearRegression x y =
     (if length x \<noteq> length y \<or> x = []
      then \<lparr>alpha = Fin 0, beta = Fin 0, rsquared = Fin 0, residuals = []\<rparr>
      else
        let xy = zip x y;
            sum_x = foldl (\<lambda>s (xi, yi). dadd s xi) (Fin 0) xy;
            sum_y = foldl (\<lambda>s (xi, yi). dadd s yi) (Fin 0) xy;
            sum_xy = foldl (\<lambda>s (xi, yi). dadd s (dmul xi yi)) (Fin 0) xy;
            sum_xx = foldl (\<lambda>s (xi, yi). dadd s (dmul xi xi)) (Fin 0) xy;
            n = of_size (length x);
            denominator = dsub (dmul n sum_xx) (dmul sum_x sum_x)
        in if deq denominator (Fin 0)
           then \<lparr>alpha = Fin 0, beta = Fin 0, rsquared = Fin 0, residuals = []\<rparr>
           else
             let b = ddiv (dsub (dmul n sum_xy) (dmul sum_x sum_y)) denominator;
                 a = ddiv (dsub sum_y (dmul b sum_x)) n;
                 res = map (\<lambda>(xi, yi). dsub yi (dadd a (dmul b xi))) xy;
                 ss_total =
                   foldl (\<lambda>s (xi, yi).
                            dadd s (dmul (dsub yi (ddiv sum_y n)) (dsub yi (ddiv sum_y n))))
                     (Fin 0) xy;
                 ss_residual = foldl (\<lambda>s r. dadd s (dmul r r)) (Fin 0) res;
                 r2 = (if dgt ss_total (Fin 0)
                       then dsub (Fin 1) (ddiv ss_residual ss_total) else Fin 0)
             in \<lparr>alpha = a, beta = b, rsquared = r2, residuals = res\<rparr>)"

definition criticalValue :: double where
  "criticalValue = Fin (- 286 / 100)"

text \<open>
  \<^verbatim>\<open>regression.residuals.size() - 2\<close> is \<^verbatim>\<open>size_t\<close> arithmetic: it wraps around when the
  regression returned its degenerate result with no residuals.
\<close>

definition adfTest :: "double list \<Rightarrow> int \<Rightarrow> AdfResult" where
  "adfTest timeSeries maxLags =
     (if length timeSeries < 20
      then \<lparr>testStatistic = Fin 0, pValue = Fin 1, isStationary = False\<rparr>
      else
        let diff = map (\<lambda>i. dsub (timeSeries ! i) (timeSeries ! (i - 1)))
                     [1..<length timeSeries];
            lagged = map (\<lambda>i. timeSeries ! i) [0..<length timeSeries - 1];
            regression = linearRegression lagged diff;
            b = beta regression;
            se0 = foldl (\<lambda>s r. dadd s (dmul r r)) (Fin 0) (residuals regression);
            se1 = dsqrt (ddiv se0 (of_size (size_sub (length (residuals regression)) 2)));
            se = ddiv se1 (dsqrt (foldl (\<lambda>s v. dadd s (dmul v v)) (Fin 0) lagged));
            tStat = ddiv b se
        in \<lparr>testStatistic = tStat, pValue = Fin (5 / 100),
            isStationary = dlt tStat criticalValue\<rparr>)"

section \<open>AssetPair: the pair model\<close>

record AssetPair =
  symbolA :: string
  symbolB :: string
  pricesA :: "double list"
  pricesB :: "double list"
  spreads :: "double list"
  pair_beta :: double
  isCointegrated :: bool

text \<open>
  The constructor leaves both price series with the same length, and nothing changes them
  afterwards, so \<^verbatim>\<open>pricesB_[i]\<close> is in range for every index of \<^verbatim>\<open>pricesA_\<close>.
\<close>

definition calculateSpreads :: "AssetPair \<Rightarrow> AssetPair" where
  "calculateSpreads p =
     p\<lparr>spreads := map (\<lambda>i. dsub (pricesA p ! i) (dmul (pair_beta p) (pricesB p ! i)))
                      [0..<length (pricesA p)]\<rparr>"

text \<open>
  The constructor truncates both series to the shorter length and computes the default
  spreads with \<open>beta = 1\<close>.
\<close>

definition newAssetPair :: "string \<Rightarrow> string \<Rightarrow> double list \<Rightarrow> double list \<Rightarrow> AssetPair" where
  "newAssetPair sa sb pa pb =
     (let minSize = min (length pa) (length pb)
      in calculateSpreads
           \<lparr>symbolA = sa, symbolB = sb,
            pricesA = (if length pa \<noteq> length pb then take minSize pa else pa),
            pricesB = (if length pa \<noteq> length pb then take minSize pb else pb),
            spreads = [], pair_beta = Fin 1, isCointegrated = False\<rparr>)"

text \<open>\<^verbatim>\<open>testCointegration\<close> mutates the pair and returns the verdict.\<close>

definition testCointegration :: "AssetPair \<Rightarrow> double \<Rightarrow> AssetPair \<times> bool" where
  "testCointegration p significanceLevel =
     (let regression = linearRegression (pricesB p) (pricesA p);
          p1 = calculateSpreads (p\<lparr>pair_beta := beta regression\<rparr>);
          adfResult = adfTest (spreads p1) 1
      in (p1\<lparr>isCointegrated := isStationary adfResult\<rparr>, isStationary adfResult))"

definition getZScores :: "AssetPair \<Rightarrow> nat \<Rightarrow> double list" where
  "getZScores p window =
     (let window1 =
            (if window \<ge> length (spreads p)
             then (let w = length (spreads p) div 2 in if w < 2 then 2 else w)
             else window)
      in rollingZScore (spreads p) window1)"

text \<open>
  One iteration of the loop of \<^verbatim>\<open>generateSignals\<close>: from the held direction
  \<open>currentPosition\<close> and the day's z-score to the day's signal and the new held direction.
  The signal vector is initialised to 0, so a day on which no branch assigns emits 0.
\<close>

definition signalStep :: "double \<Rightarrow> double \<Rightarrow> int \<Rightarrow> double \<Rightarrow> int \<times> int" where
  "signalStep entryThreshold exitThreshold currentPosition z =
     (if isnan z then (0, currentPosition)
      else if currentPosition = 0 then
        (if dgt z entryThreshold then (- 1, - 1)
         else if dlt z (dneg entryThreshold) then (1, 1)
         else (0, currentPosition))
      else if currentPosition = 1 then
        (if dge z (dneg exitThreshold) then (0, 0) else (1, currentPosition))
      else if currentPosition = - 1 then
        (if dle z exitThreshold then (0, 0) else (- 1, currentPosition))
      else (0, currentPosition))"

fun signalLoop :: "double \<Rightarrow> double \<Rightarrow> int \<Rightarrow> double list \<Rightarrow> int list" where
  "signalLoop entryThreshold exitThreshold currentPosition [] = []"
| "signalLoop entryThreshold exitThreshold currentPosition (z # zs) =
     (let (signal, currentPosition') = signalStep entryThreshold exitThreshold currentPosition z
      in signal # signalLoop entryThreshold exitThreshold currentPosition' zs)"

definition generateSignals :: "AssetPair \<Rightarrow> double \<Rightarrow> double \<Rightarrow> nat \<Rightarrow> int list" where
  "generateSignals p entryThreshold exitThreshold lookbackWindow =
     signalLoop entryThreshold exitThreshold 0 (getZScores p lookbackWindow)"

text \<open>
  The direction the loop of \<^verbatim>\<open>generateSignals\<close> holds (its variable
  \<^verbatim>\<open>currentPosition\<close>) when it reaches day \<open>i\<close>.
\<close>

definition heldBefore :: "double \<Rightarrow> double \<Rightarrow> double list \<Rightarrow> nat \<Rightarrow> int" where
  "heldBefore entryThreshold exitThreshold zs i =
     foldl (\<lambda>cp z. snd (signalStep entryThreshold exitThreshold cp z)) 0 (take i zs)"

text \<open>
  The machine as the specification words it: three states, and for a day with a defined
  z-score the transitions listed in the specification, read in the order they are given.
\<close>

datatype spread_state = Flat | LongSpread | ShortSpread

fun spec_next :: "double \<Rightarrow> double \<Rightarrow> spread_state \<Rightarrow> double \<Rightarrow> spread_state" where
  "spec_next entryThreshold exitThreshold Flat z =
     (if dgt z entryThreshold then ShortSpread
      else if dlt z (dneg entryThreshold) then LongSpread
      else Flat)"
| "spec_next entryThreshold exitThreshold LongSpread z =
     (if dge z (dneg exitThreshold) then Flat else LongSpread)"
| "spec_next entryThreshold exitThreshold ShortSpread z =
     (if dle z exitThreshold then Flat else ShortSpread)"

fun signal_of :: "spread_state \<Rightarrow> int" where
  "signal_of Flat = 0"
| "signal_of LongSpread = 1"
| "signal_of ShortSpread = - 1"

section \<open>MarketData: the price provider\<close>

record MarketData =
  dates :: "string list"
  prices :: "string \<rightharpoonup> double list"
  isDataLoaded :: bool

definition getPriceSeries :: "MarketData \<Rightarrow> string \<Rightarrow> double list option" where
  "getPriceSeries md symbol = (if \<not> isDataLoaded md then None else prices md symbol)"

definition getDataSize :: "MarketData \<Rightarrow> nat" where
  "getDataSize md = length (dates md)"

section \<open>Backtester: the simulation engine\<close>

record Position =
  pos_symbolA :: string
  pos_symbolB :: string
  quantityA :: double
  quantityB :: double
  entryPriceA :: double
  entryPriceB :: double
  entryDay :: int
  direction :: int

text \<open>The default-constructed \<^verbatim>\<open>Position()\<close>.\<close>

definition emptyPosition :: Position where
  "emptyPosition =
     \<lparr>pos_symbolA = [], pos_symbolB = [], quantityA = Fin 0, quantityB = Fin 0,
      entryPriceA = Fin 0, entryPriceB = Fin 0, entryDay = - 1, direction = 0\<rparr>"

record PerformanceMetrics =
  totalReturn :: double
  annualizedReturn :: double
  sharpeRatio :: double
  maxDrawdown :: double
  winCount :: int
  lossCount :: int
  avgHoldingPeriod :: double
  avgWin :: double
  avgLoss :: double

record Backtester =
  marketData :: MarketData
  pairs :: "AssetPair list"
  positions :: "Position list"
  portfolioValues :: "double list"
  tradeHistory :: "(int \<times> double) list"
  cash :: double
  initialCapital :: double
  metrics :: PerformanceMetrics

definition newBacktester :: "MarketData \<Rightarrow> Backtester" where
  "newBacktester md =
     \<lparr>marketData = md, pairs = [], positions = [], portfolioValues = [], tradeHistory = [],
      cash = Fin 0, initialCapital = Fin 0,
      metrics = \<lparr>totalReturn = Fin 0, annualizedReturn = Fin 0, sharpeRatio = Fin 0,
                 maxDrawdown = Fin 0, winCount = 0, lossCount = 0, avgHoldingPeriod = Fin 0,
                 avgWin = Fin 0, avgLoss = Fin 0\<rparr>\<rparr>"

text \<open>\<^verbatim>\<open>addPair\<close> calls \<^verbatim>\<open>testCointegration()\<close> with its default significance level 0.05.\<close>

definition addPair :: "Backtester \<Rightarrow> string \<Rightarrow> string \<Rightarrow> Backtester" where
  "addPair bt sa sb =
     (case getPriceSeries (marketData bt) sa of
        None \<Rightarrow> bt
      | Some pa \<Rightarrow>
          (case getPriceSeries (marketData bt) sb of
             None \<Rightarrow> bt
           | Some pb \<Rightarrow>
               (let (pair, cointegrated) =
                      testCointegration (newAssetPair sa sb pa pb) (Fin (5 / 100))
                in if cointegrated then bt\<lparr>pairs := pairs bt @ [pair]\<rparr> else bt)))"

definition calculatePortfolioValue :: "Backtester \<Rightarrow> int \<Rightarrow> double" where
  "calculatePortfolioValue bt day =
     (if day < 0 \<or> day \<ge> int (getDataSize (marketData bt)) then initialCapital bt
      else
        foldl (\<lambda>totalValue position.
                 case getPriceSeries (marketData bt) (pos_symbolA position) of
                   None \<Rightarrow> totalValue
                 | Some pA \<Rightarrow>
                     (case getPriceSeries (marketData bt) (pos_symbolB position) of
                        None \<Rightarrow> totalValue
                      | Some pB \<Rightarrow>
                          if day < int (length pA) \<and> day < int (length pB)
                          then dadd totalValue
                                 (dadd (dmul (quantityA position) (pA ! nat day))
                                       (dmul (quantityB position) (pB ! nat day)))
                          else totalValue))
          (cash bt) (positions bt))"

text \<open>
  Reading \<^verbatim>\<open>pair->getPricesA()[executionDay]\<close> beyond the end of the vector is undefined
  behaviour in the source; the model makes it an error value.
\<close>

datatype error = OutOfRange

text \<open>
  The state of the day loop of \<^verbatim>\<open>runBacktest\<close>: the engine and the two locals
  \<^verbatim>\<open>currentPosition\<close> and \<^verbatim>\<open>position\<close> of the pair being replayed.
\<close>

type_synonym loop_state = "Backtester \<times> int \<times> Position"

text \<open>The block \<^verbatim>\<open>if (currentPosition != 0) { ... }\<close>: close the existing position.\<close>

definition closePosition :: "AssetPair \<Rightarrow> nat \<Rightarrow> loop_state \<Rightarrow> error + loop_state" where
  "closePosition pair executionDay s =
     (case s of (bt, currentPosition, position) \<Rightarrow>
        if executionDay < length (pricesA pair) \<and> executionDay < length (pricesB pair)
        then
          let priceA = pricesA pair ! executionDay;
              priceB = pricesB pair ! executionDay;
              entryValueA = dmul (quantityA position) (entryPriceA position);
              entryValueB = dmul (quantityB position) (entryPriceB position);
              exitValueA = dmul (quantityA position) priceA;
              exitValueB = dmul (quantityB position) priceB;
              pnl = dadd (dsub exitValueA entryValueA) (dsub exitValueB entryValueB);
              m = metrics bt;
              m1 = (if dgt pnl (Fin 0) then m\<lparr>winCount := winCount m + 1\<rparr>
                    else m\<lparr>lossCount := lossCount m + 1\<rparr>);
              holdingPeriod = int executionDay - entryDay position;
              m2 = m1\<lparr>avgHoldingPeriod := dadd (avgHoldingPeriod m1) (of_int_d holdingPeriod)\<rparr>
          in Inr (bt\<lparr>tradeHistory := tradeHistory bt @ [(int executionDay, pnl)],
                     cash := dadd (cash bt) (dadd exitValueA exitValueB),
                     metrics := m2\<rparr>,
                  0, emptyPosition)
        else Inl OutOfRange)"

text \<open>The block \<^verbatim>\<open>if (signal != 0) { ... }\<close>: open a new position.\<close>

definition openPosition :: "AssetPair \<Rightarrow> int \<Rightarrow> nat \<Rightarrow> loop_state \<Rightarrow> error + loop_state" where
  "openPosition pair signal executionDay s =
     (case s of (bt, currentPosition, position) \<Rightarrow>
        if executionDay < length (pricesA pair) \<and> executionDay < length (pricesB pair)
        then
          let priceA = pricesA pair ! executionDay;
              priceB = pricesB pair ! executionDay;
              positionSize = dmul (calculatePortfolioValue bt (int executionDay - 1)) (Fin (1 / 10));
              qA = (if signal > 0 then ddiv positionSize (dmul (Fin 2) priceA)
                    else ddiv (dneg positionSize) (dmul (Fin 2) priceA));
              qB = (if signal > 0 then ddiv (dneg positionSize) (dmul (Fin 2) priceB)
                    else ddiv positionSize (dmul (Fin 2) priceB));
              position' = position\<lparr>pos_symbolA := symbolA pair, pos_symbolB := symbolB pair,
                                   quantityA := qA, quantityB := qB,
                                   entryPriceA := priceA, entryPriceB := priceB,
                                   entryDay := int executionDay, direction := signal\<rparr>
          in Inr (bt\<lparr>cash := dsub (cash bt) (dadd (dmul qA priceA) (dmul qB priceB)),
                     positions := positions bt @ [position']\<rparr>,
                  signal, position')
        else Inl OutOfRange)"

text \<open>
  The body of the day loop. Day indices are natural numbers: the conversion of the
  \<^verbatim>\<open>size_t\<close> day to the \<^verbatim>\<open>int\<close> execution day is exact for any data set of fewer than
  \<open>2^31\<close> days.
\<close>

definition processDay ::
  "AssetPair \<Rightarrow> int list \<Rightarrow> bool \<Rightarrow> nat \<Rightarrow> nat \<Rightarrow> loop_state \<Rightarrow> error + loop_state" where
  "processDay pair signals delayedExecution numDays day s =
     (let signal = (if day < length signals then signals ! day else 0);
          executionDay = (if delayedExecution \<and> day + 1 < numDays then day + 1 else day);
          traded =
            (if signal \<noteq> fst (snd s) then
               (case (if fst (snd s) \<noteq> 0 then closePosition pair executionDay s else Inr s) of
                  Inl e \<Rightarrow> Inl e
                | Inr s1 \<Rightarrow>
                    if signal \<noteq> 0 then openPosition pair signal executionDay s1 else Inr s1)
             else Inr s)
      in case traded of
           Inl e \<Rightarrow> Inl e
         | Inr (bt, currentPosition, position) \<Rightarrow>
             Inr (bt\<lparr>portfolioValues :=
                       (portfolioValues bt)
                         [executionDay := calculatePortfolioValue bt (int executionDay)]\<rparr>,
                  currentPosition, position))"

function dayLoop ::
  "AssetPair \<Rightarrow> int list \<Rightarrow> bool \<Rightarrow> nat \<Rightarrow> nat \<Rightarrow> loop_state \<Rightarrow> error + loop_state" where
  "dayLoop pair signals delayedExecution numDays day s =
     (if day < numDays then
        (case processDay pair signals delayedExecution numDays day s of
           Inl e \<Rightarrow> Inl e
         | Inr s' \<Rightarrow> dayLoop pair signals delayedExecution numDays (Suc day) s')
      else Inr s)"
  by pat_completeness auto
termination
  by (relation "measure (\<lambda>(pair, signals, delayedExecution, numDays, day, s). numDays - day)")
     auto

text \<open>The loop over the accepted pairs: each pair is replayed over all days in turn.\<close>

fun pairsLoop ::
  "double \<Rightarrow> double \<Rightarrow> nat \<Rightarrow> bool \<Rightarrow> nat \<Rightarrow> AssetPair list \<Rightarrow> Backtester \<Rightarrow> error + Backtester"
  where
  "pairsLoop entryThreshold exitThreshold lookbackWindow delayedExecution numDays [] bt = Inr bt"
| "pairsLoop entryThreshold exitThreshold lookbackWindow delayedExecution numDays (pair # rest) bt =
     (let signals = generateSignals pair entryThreshold exitThreshold lookbackWindow
      in case dayLoop pair signals delayedExecution numDays lookbackWindow (bt, 0, emptyPosition) of
           Inl e \<Rightarrow> Inl e
         | Inr (bt', currentPosition, position) \<Rightarrow>
             pairsLoop entryThreshold exitThreshold lookbackWindow delayedExecution numDays rest bt')"

text \<open>The maximum-drawdown loop of \<^verbatim>\<open>calculateMetrics\<close>.\<close>

fun drawdownLoop :: "double \<Rightarrow> double \<Rightarrow> double list \<Rightarrow> double" where
  "drawdownLoop maxValue maxDD [] = maxDD"
| "drawdownLoop maxValue maxDD (v # rest) =
     (if dgt v maxValue then drawdownLoop v maxDD rest
      else
        let drawdown = ddiv (dsub maxValue v) maxValue
        in if dgt drawdown maxDD then drawdownLoop maxValue drawdown rest
           else drawdownLoop maxValue maxDD rest)"

definition calculateMaxDrawdown :: "double list \<Rightarrow> double" where
  "calculateMaxDrawdown pv = drawdownLoop (pv ! 0) (Fin 0) pv"

text \<open>
  \<^verbatim>\<open>calculateMetrics\<close>, without its printing. \<^verbatim>\<open>std::pow\<close> is taken as the parameter
  \<open>pow\<close>. A metric whose guard fails keeps the value it had.
\<close>

definition calculateMetrics :: "(double \<Rightarrow> double \<Rightarrow> double) \<Rightarrow> Backtester \<Rightarrow> Backtester" where
  "calculateMetrics pow bt =
     (if portfolioValues bt = [] then bt
      else
        let pv = portfolioValues bt;
            m = metrics bt;
            finalValue = last pv;
            total = dsub (ddiv finalValue (initialCapital bt)) (Fin 1);
            years = ddiv (of_size (length pv)) (Fin 252);
            annualized = dsub (pow (dadd (Fin 1) total) (ddiv (Fin 1) years)) (Fin 1);
            dailyReturns = map (\<lambda>i. dsub (ddiv (pv ! i) (pv ! (i - 1))) (Fin 1)) [1..<length pv];
            meanDailyReturn = mean dailyReturns;
            stdDailyReturn = standardDeviation dailyReturns;
            sharpe = (if dgt stdDailyReturn (Fin 0)
                      then dmul (ddiv meanDailyReturn stdDailyReturn) (dsqrt (Fin 252))
                      else sharpeRatio m);
            maxDD = calculateMaxDrawdown pv;
            totalTrades = winCount m + lossCount m;
            holding = (if totalTrades > 0 then ddiv (avgHoldingPeriod m) (of_int_d totalTrades)
                       else avgHoldingPeriod m);
            totalWins = foldl (\<lambda>s (d, pnl). if dgt pnl (Fin 0) then dadd s pnl else s)
                          (Fin 0) (tradeHistory bt);
            totalLosses = foldl (\<lambda>s (d, pnl). if dgt pnl (Fin 0) then s else dadd s pnl)
                            (Fin 0) (tradeHistory bt);
            win = (if winCount m > 0 then ddiv totalWins (of_int_d (winCount m)) else avgWin m);
            loss = (if lossCount m > 0 then ddiv totalLosses (of_int_d (lossCount m))
                    else avgLoss m)
        in bt\<lparr>metrics :=
                 m\<lparr>totalReturn := total, annualizedReturn := annualized, sharpeRatio := sharpe,
                   maxDrawdown := maxDD, avgHoldingPeriod := holding,
                   avgWin := win, avgLoss := loss\<rparr>\<rparr>)"

definition runBacktest ::
  "(double \<Rightarrow> double \<Rightarrow> double) \<Rightarrow> double \<Rightarrow> double \<Rightarrow> double \<Rightarrow> nat \<Rightarrow> bool \<Rightarrow> Backtester
     \<Rightarrow> error + Backtester" where
  "runBacktest pow capital entryThreshold exitThreshold lookbackWindow delayedExecution bt =
     (let bt0 = bt\<lparr>cash := capital, initialCapital := capital, positions := [],
                   portfolioValues := [], tradeHistory := []\<rparr>;
          numDays = getDataSize (marketData bt0)
      in if numDays = 0 then Inr bt0
         else
           case pairsLoop entryThreshold exitThreshold lookbackWindow delayedExecution numDays
                  (pairs bt0) (bt0\<lparr>portfolioValues := replicate numDays (Fin 0)\<rparr>) of
             Inl e \<Rightarrow> Inl e
           | Inr bt1 \<Rightarrow> Inr (calculateMetrics pow bt1))"

section \<open>Correctly rounded double arithmetic\<close>

text \<open>
  The entries of \<^verbatim>\<open>rollingZScore\<close> depend on the rounding of every operation: the standard
  deviation of a window of equal observations is 0 in exact arithmetic and can be a tiny
  positive number in the program, and a sum that exceeds the largest double in exact
  arithmetic can round back to it. For this function the operations are therefore
  modelled as IEEE-754 binary64 operations in the default rounding mode: the exact result
  is rounded to the nearest double, ties to the even significand, and only then compared
  with the largest double.

  \<open>round_even\<close> rounds a real to the nearest integer, ties to even. \<open>ulp64 x\<close> is the spacing
  of the doubles around a positive \<open>x\<close>: \<open>2^(e - 52)\<close> for \<open>2^e \<le> x < 2^(e + 1)\<close>, and the
  subnormal spacing \<open>2^(-1074)\<close> below \<open>2^(-1022)\<close>, so that results below the normal range
  underflow gradually and results of at most \<open>2^(-1075)\<close> become zero. \<open>rnd64\<close> is the
  rounding to the nearest multiple of the spacing, symmetric in the sign. \<open>fl64\<close> is the
  result of an operation whose exact value is \<open>r\<close>: the infinity of its sign when the
  rounded value exceeds the largest double, the rounded value otherwise.

  Zero carries no sign here either. The sign of a zero is visible only through a division
  by it, and \<^verbatim>\<open>rollingZScore\<close> divides by the window size, by the window size minus one
  (at least 1 where \<^verbatim>\<open>standardDeviation\<close> divides) and by a standard deviation that has
  passed the test \<^verbatim>\<open>stdDevs[i] > 0\<close>; a result \<^verbatim>\<open>-0.0\<close> of the program is the value
  \<open>Fin 0\<close> here. Each operation is rounded on its own (no fused multiply-add, no extended
  precision), and \<^verbatim>\<open>std::sqrt\<close> is correctly rounded, as IEEE-754 requires.
\<close>

definition round_even :: "real \<Rightarrow> int" where
  "round_even r =
     (let f = \<lfloor>r\<rfloor>; d = r - of_int f
      in if d < 1 / 2 then f else if 1 / 2 < d then f + 1 else if even f then f else f + 1)"

definition ulp64 :: "real \<Rightarrow> real" where
  "ulp64 x = 2 powi (max \<lfloor>log 2 x\<rfloor> (- 1022) - 52)"

definition round_pos :: "real \<Rightarrow> real" where
  "round_pos x = (if x = 0 then 0 else of_int (round_even (x / ulp64 x)) * ulp64 x)"

definition rnd64 :: "real \<Rightarrow> real" where
  "rnd64 x = (if x < 0 then - round_pos (- x) else round_pos x)"

definition fl64 :: "real \<Rightarrow> double" where
  "fl64 r =
     (let q = rnd64 r
      in if DBL_MAX < q then PInf else if q < - DBL_MAX then NInf else Fin q)"

text \<open>
  The operations: the special values as in \<open>dadd\<close>, \<open>dmul\<close>, \<open>ddiv\<close> and \<open>dsqrt\<close>, the finite
  results rounded.
\<close>

definition dadd64 :: "double \<Rightarrow> double \<Rightarrow> double" where
  "dadd64 x y =
     (case x of
        NaN \<Rightarrow> NaN
      | PInf \<Rightarrow> (case y of NaN \<Rightarrow> NaN | NInf \<Rightarrow> NaN | _ \<Rightarrow> PInf)
      | NInf \<Rightarrow> (case y of NaN \<Rightarrow> NaN | PInf \<Rightarrow> NaN | _ \<Rightarrow> NInf)
      | Fin a \<Rightarrow> (case y of NaN \<Rightarrow> NaN | PInf \<Rightarrow> PInf | NInf \<Rightarrow> NInf
                  | Fin b \<Rightarrow> fl64 (a + b)))"

definition dsub64 :: "double \<Rightarrow> double \<Rightarrow> double" where
  "dsub64 x y = dadd64 x (dneg y)"

definition dmul64 :: "double \<Rightarrow> double \<Rightarrow> double" where
  "dmul64 x y =
     (case x of
        NaN \<Rightarrow> NaN
      | PInf \<Rightarrow> (case y of NaN \<Rightarrow> NaN | PInf \<Rightarrow> PInf | NInf \<Rightarrow> NInf
                 | Fin b \<Rightarrow> if b = 0 then NaN else signed_inf (0 < b))
      | NInf \<Rightarrow> (case y of NaN \<Rightarrow> NaN | PInf \<Rightarrow> NInf | NInf \<Rightarrow> PInf
                 | Fin b \<Rightarrow> if b = 0 then NaN else signed_inf (b < 0))
      | Fin a \<Rightarrow> (case y of NaN \<Rightarrow> NaN
                 | PInf \<Rightarrow> if a = 0 then NaN else signed_inf (0 < a)
                 | NInf \<Rightarrow> if a = 0 then NaN else signed_inf (a < 0)
                 | Fin b \<Rightarrow> fl64 (a * b)))"

definition ddiv64 :: "double \<Rightarrow> double \<Rightarrow> double" where
  "ddiv64 x y =
     (case x of
        NaN \<Rightarrow> NaN
      | PInf \<Rightarrow> (case y of Fin b \<Rightarrow> signed_inf (0 \<le> b) | _ \<Rightarrow> NaN)
      | NInf \<Rightarrow> (case y of Fin b \<Rightarrow> signed_inf (b < 0) | _ \<Rightarrow> NaN)
      | Fin a \<Rightarrow> (case y of NaN \<Rightarrow> NaN | PInf \<Rightarrow> Fin 0 | NInf \<Rightarrow> Fin 0
                 | Fin b \<Rightarrow> if b = 0 then (if a = 0 then NaN else signed_inf (0 < a))
                            else fl64 (a / b)))"

definition dsqrt64 :: "double \<Rightarrow> double" where
  "dsqrt64 d = (case d of Fin a \<Rightarrow> if a < 0 then NaN else fl64 (sqrt a)
                | PInf \<Rightarrow> PInf | NInf \<Rightarrow> NaN | NaN \<Rightarrow> NaN)"

definition of_size64 :: "nat \<Rightarrow> double" where
  "of_size64 n = fl64 (real n)"

text \<open>
  \<^verbatim>\<open>mean\<close>, \<^verbatim>\<open>standardDeviation\<close>, \<^verbatim>\<open>rollingMean\<close>, \<^verbatim>\<open>rollingStdDev\<close> and \<^verbatim>\<open>rollingZScore\<close>
  of Utilities.cpp once more, statement by statement as above, with the rounded
  operations. The conversion of a \<^verbatim>\<open>size_t\<close> to double rounds as well (\<open>of_size64\<close>).
\<close>

definition mean64 :: "double list \<Rightarrow> double" where
  "mean64 data =
     (if data = [] then NaN
      else ddiv64 (foldl dadd64 (Fin 0) data) (of_size64 (length data)))"

definition standardDeviation64 :: "double list \<Rightarrow> double" where
  "standardDeviation64 data =
     (if length data < 2 then NaN
      else
        let avg = mean64 data;
            sum_squared_diff =
              foldl (\<lambda>s v. let diff = dsub64 v avg in dadd64 s (dmul64 diff diff)) (Fin 0) data
        in dsqrt64 (ddiv64 sum_squared_diff (of_size64 (length data - 1))))"

definition rollingMean64 :: "double list \<Rightarrow> nat \<Rightarrow> double list" where
  "rollingMean64 data window =
     (if length data < window then replicate (length data) NaN
      else if window = 0 then replicate (length data) NaN
      else map (\<lambda>i. if i < window - 1 then NaN
                     else ddiv64 (foldl dadd64 (Fin 0) (window_data data window i))
                            (of_size64 window))
             [0..<length data])"

definition rollingStdDev64 :: "double list \<Rightarrow> nat \<Rightarrow> double list" where
  "rollingStdDev64 data window =
     (if length data < window then replicate (length data) NaN
      else if window = 0 then replicate (length data) NaN
      else map (\<lambda>i. if i < window - 1 then NaN
                     else standardDeviation64 (window_data data window i))
             [0..<length data])"

definition rollingZScore64 :: "double list \<Rightarrow> nat \<Rightarrow> double list" where
  "rollingZScore64 data window =
     (if length data < window then replicate (length data) NaN
      else
        let means = rollingMean64 data window;
            stdDevs = rollingStdDev64 data window
        in if window = 0 then replicate (length data) NaN
           else map (\<lambda>i. if i < window - 1 then NaN
                          else if dgt (stdDevs ! i) (Fin 0)
                               then ddiv64 (dsub64 (data ! i) (means ! i)) (stdDevs ! i)
                               else NaN)
                  [0..<length data])"

section \<open>Notions used to state the properties\<close>

text \<open>
  Day \<open>i\<close> of a series of \<open>n\<close> observations has insufficient history for a rolling window:
  the series is shorter than the window, or the day lies in the warm-up region before
  index \<open>window - 1\<close> (all days, when the window is 0 and \<open>window - 1\<close> wraps around).
\<close>

definition insufficient_history :: "nat \<Rightarrow> nat \<Rightarrow> nat \<Rightarrow> bool" where
  "insufficient_history n window i = (n < window \<or> window = 0 \<or> i < window - 1)"

definition is_fin :: "double \<Rightarrow> bool" where
  "is_fin d = (case d of Fin r \<Rightarrow> True | _ \<Rightarrow> False)"

text \<open>A double that is not negative: a finite double that is at least 0, \<open>+\<infinity>\<close>, or NaN.\<close>

definition not_negative :: "double \<Rightarrow> bool" where
  "not_negative d =
     (case d of Fin a \<Rightarrow> 0 \<le> a \<and> a \<le> DBL_MAX | PInf \<Rightarrow> True | NInf \<Rightarrow> False | NaN \<Rightarrow> True)"

text \<open>The execution day of \<^verbatim>\<open>runBacktest\<close> for a signal day.\<close>

definition executionDay_of :: "bool \<Rightarrow> nat \<Rightarrow> nat \<Rightarrow> nat" where
  "executionDay_of delayedExecution numDays day =
     (if delayedExecution \<and> day + 1 < numDays then day + 1 else day)"

text \<open>
  The indices of the value series that lie before the first execution day of a day loop
  started at \<open>lookbackWindow\<close>.
\<close>

definition untouched :: "bool \<Rightarrow> nat \<Rightarrow> nat \<Rightarrow> nat \<Rightarrow> bool" where
  "untouched delayedExecution numDays lookbackWindow j =
     (j < lookbackWindow
      \<or> (j = lookbackWindow \<and> delayedExecution \<and> lookbackWindow + 1 < numDays))"

section \<open>Example inputs\<close>

text \<open>
  A pair of seven days; the price of A is missing (NaN) on day 3. With a window of three
  days its z-scores are NaN, NaN, 8/7, NaN, NaN, NaN, 1.
\<close>

definition demo_pair :: AssetPair where
  "demo_pair =
     newAssetPair ''A'' ''B''
       [Fin 15, Fin 13, Fin 26, NaN, Fin 14, Fin 15, Fin 16]
       [Fin 10, Fin 10, Fin 10, Fin 10, Fin 10, Fin 10, Fin 10]"

text \<open>A series of twenty observations that alternates between 11 and 9.\<close>

definition alternating :: "double list" where
  "alternating =
     [Fin 11, Fin 9, Fin 11, Fin 9, Fin 11, Fin 9, Fin 11, Fin 9, Fin 11, Fin 9,
      Fin 11, Fin 9, Fin 11, Fin 9, Fin 11, Fin 9, Fin 11, Fin 9, Fin 11, Fin 9]"

text \<open>A pair of four days whose spread rises by one each day.\<close>

definition ramp_pair :: AssetPair where
  "ramp_pair =
     newAssetPair ''A'' ''B''
       [Fin 10, Fin 11, Fin 12, Fin 13]
       [Fin 10, Fin 10, Fin 10, Fin 10]"

text \<open>An engine whose value series is 0, 100, 80, 120, 90.\<close>

definition drawdown_engine :: Backtester where
  "drawdown_engine =
     (newBacktester \<lparr>dates = [], prices = Map.empty, isDataLoaded = False\<rparr>)
       \<lparr>portfolioValues := [Fin 0, Fin 100, Fin 80, Fin 120, Fin 90],
        initialCapital := Fin 100\<rparr>"

text \<open>
  A data set of twenty days: A alternates between 11 and 9, B stays at 10. The regression
  of A on B is degenerate (B has no variance), so the fitted beta is 0 and the spread is A
  itself, which the stationarity test accepts.
\<close>

definition alt_data :: MarketData where
  "alt_data =
     \<lparr>dates =
        [''2020-01-01'', ''2020-01-02'', ''2020-01-03'', ''2020-01-04'', ''2020-01-05'',
         ''2020-01-06'', ''2020-01-07'', ''2020-01-08'', ''2020-01-09'', ''2020-01-10'',
         ''2020-01-11'', ''2020-01-12'', ''2020-01-13'', ''2020-01-14'', ''2020-01-15'',
         ''2020-01-16'', ''2020-01-17'', ''2020-01-18'', ''2020-01-19'', ''2020-01-20''],
      prices = [''A'' \<mapsto> alternating, ''B'' \<mapsto> replicate 20 (Fin 10)],
      isDataLoaded = True\<rparr>"

definition alt_pair :: AssetPair where
  "alt_pair =
     \<lparr>symbolA = ''A'', symbolB = ''B'', pricesA = alternating, pricesB = replicate 20 (Fin 10),
      spreads = alternating, pair_beta = Fin 0, isCointegrated = True\<rparr>"

definition alt_engine :: Backtester where
  "alt_engine = addPair (newBacktester alt_data) ''A'' ''B''"

text \<open>The z-score of that spread on a day at 11, with a window of 17 days.\<close>

definition alt_z :: real where
  "alt_z = 16 / (17 * sqrt (18 / 17))"

text \<open>
  The engine that accepted the pair A/B of \<open>alt_data\<close>, and the state in which
  \<^verbatim>\<open>runBacktest\<close> with a capital of 1000 enters its loop over the pairs.
\<close>

definition alt_start :: Backtester where
  "alt_start =
     alt_engine\<lparr>cash := Fin 1000, initialCapital := Fin 1000, positions := [],
                tradeHistory := [], portfolioValues := replicate 20 (Fin 0)\<rparr>"

text \<open>The short-spread position that run opens on day 18 with same-day execution.\<close>

definition alt_position :: Position where
  "alt_position =
     \<lparr>pos_symbolA = ''A'', pos_symbolB = ''B'', quantityA = Fin (- (50 / 11)),
      quantityB = Fin 5, entryPriceA = Fin 11, entryPriceB = Fin 10, entryDay = 18,
      direction = - 1\<rparr>"

text \<open>The double nearest to 0.1: \<^verbatim>\<open>0x3FB999999999999A\<close>.\<close>

definition tenth :: double where
  "tenth = Fin (7205759403792794 / 2 ^ 56)"


section \<open>Evaluating doubles\<close>

lemma DBL_MAX_ge: "2 ^ 64 \<le> DBL_MAX"
  by (simp add: DBL_MAX_def)

lemma overflow_small: "\<bar>r\<bar> \<le> 2 ^ 64 \<Longrightarrow> overflow r = Fin r"
  using DBL_MAX_ge by (auto simp: overflow_def)

lemmas double_ops =
  dadd_def dsub_def dmul_def ddiv_def dneg_def dsqrt_def dlt_def dle_def dgt_def dge_def
  deq_def isnan_def of_size_def of_int_d_def signed_inf_def overflow_small

lemmas rolling_defs =
  getZScores_def rollingZScore_def rollingMean_def rollingStdDev_def standardDeviation_def
  mean_def accumulate_def window_data_def Let_def

section \<open>The signal machine of generateSignals\<close>

lemma signalStep_range:
  "cp \<in> {- 1, 0, 1} \<Longrightarrow> snd (signalStep e x cp z) \<in> {- 1, 0, 1}"
  by (auto simp: signalStep_def)

lemma heldBefore_0: "heldBefore e x zs 0 = signal_of Flat"
  by (simp add: heldBefore_def)

lemma heldBefore_Suc:
  "i < length zs \<Longrightarrow>
   heldBefore e x zs (Suc i) = snd (signalStep e x (heldBefore e x zs i) (zs ! i))"
  by (simp add: heldBefore_def take_Suc_conv_app_nth)

lemma heldBefore_range: "heldBefore e x zs i \<in> {- 1, 0, 1}"
proof (induction i)
  case 0
  show ?case by (simp add: heldBefore_def)
next
  case (Suc i)
  show ?case
  proof (cases "i < length zs")
    case True
    with Suc show ?thesis
      using signalStep_range [of "heldBefore e x zs i" e x "zs ! i"]
      by (simp only: heldBefore_Suc)
  next
    case False
    then have "take (Suc i) zs = take i zs" by simp
    with Suc show ?thesis by (simp only: heldBefore_def)
  qed
qed

lemma length_signalLoop: "length (signalLoop e x cp zs) = length zs"
  by (induction zs arbitrary: cp) (auto split: prod.splits)

lemma signalLoop_nth:
  "i < length zs \<Longrightarrow>
   signalLoop e x cp zs ! i =
     fst (signalStep e x (foldl (\<lambda>c z. snd (signalStep e x c z)) cp (take i zs)) (zs ! i))"
proof (induction zs arbitrary: cp i)
  case Nil
  then show ?case by simp
next
  case (Cons z zs)
  show ?case
  proof (cases i)
    case 0
    then show ?thesis by (simp split: prod.splits)
  next
    case (Suc j)
    with Cons.prems have "j < length zs" by simp
    from Cons.IH [OF this] Suc show ?thesis
      by (simp split: prod.splits)
  qed
qed

lemma generateSignals_nth:
  "i < length (getZScores p lb) \<Longrightarrow>
   generateSignals p e x lb ! i =
     fst (signalStep e x (heldBefore e x (getZScores p lb) i) (getZScores p lb ! i))"
  by (simp add: generateSignals_def heldBefore_def signalLoop_nth)

lemma length_generateSignals:
  "length (generateSignals p e x lb) = length (getZScores p lb)"
  by (simp add: generateSignals_def length_signalLoop)

lemma length_rollingZScore: "length (rollingZScore data w) = length data"
  by (simp add: rollingZScore_def Let_def)

lemma length_getZScores: "length (getZScores p lb) = length (spreads p)"
  by (simp add: getZScores_def length_rollingZScore Let_def)

lemma signalStep_spec:
  "\<not> isnan z \<Longrightarrow>
   signalStep e x (signal_of st) z =
     (signal_of (spec_next e x st z), signal_of (spec_next e x st z))"
  by (cases st) (simp_all add: signalStep_def)

lemma held_is_state:
  assumes "cp \<in> {- 1, 0, 1}"
  shows "\<exists>st. cp = signal_of st"
proof -
  from assms consider "cp = 0" | "cp = 1" | "cp = - 1" by auto
  then show ?thesis
  proof cases
    case 1
    then have "cp = signal_of Flat" by simp
    then show ?thesis ..
  next
    case 2
    then have "cp = signal_of LongSpread" by simp
    then show ?thesis ..
  next
    case 3
    then have "cp = signal_of ShortSpread" by simp
    then show ?thesis ..
  qed
qed

text \<open>
  With a non-negative entry threshold the two entry conditions exclude each other, so the
  order in which the transitions from flat are read does not matter.
\<close>

lemma entry_conditions_disjoint:
  "dge e (Fin 0) \<Longrightarrow> \<not> (dgt z e \<and> dlt z (dneg e))"
  by (cases e; cases z) (auto simp: dge_def dle_def dgt_def dlt_def dneg_def)

lemma signalStep_emits_held:
  "cp \<in> {- 1, 0, 1} \<Longrightarrow> fst (signalStep e x cp z) \<noteq> 0 \<Longrightarrow>
   snd (signalStep e x cp z) = fst (signalStep e x cp z)"
  by (auto simp: signalStep_def split: if_splits)

lemma signalStep_from_held:
  "cp \<noteq> 0 \<Longrightarrow> fst (signalStep e x cp z) = 0 \<or> fst (signalStep e x cp z) = cp"
  by (auto simp: signalStep_def split: if_splits)

lemma sqrt_49: "sqrt 49 = 7"
  using real_sqrt_abs [of 7] by simp

lemma demo_pair_spreads:
  "spreads demo_pair = [Fin 5, Fin 3, Fin 16, NaN, Fin 4, Fin 5, Fin 6]"
  by (simp add: demo_pair_def newAssetPair_def calculateSpreads_def double_ops)

lemma demo_pair_zscores:
  "getZScores demo_pair 3 = [NaN, NaN, Fin (8 / 7), NaN, NaN, NaN, Fin 1]"
  by (simp add: demo_pair_spreads rolling_defs double_ops sqrt_49)

lemma demo_pair_signals:
  "generateSignals demo_pair (Fin (11 / 10)) (Fin 0) 3 = [0, 0, - 1, 0, 0, 0, - 1]"
  by (simp add: generateSignals_def demo_pair_zscores signalStep_def double_ops)

lemma demo_pair_held:
  "map (heldBefore (Fin (11 / 10)) (Fin 0) (getZScores demo_pair 3)) [2, 3, 4, 5, 6]
     = [0, - 1, - 1, - 1, - 1]"
  by (simp add: heldBefore_def demo_pair_zscores signalStep_def double_ops)

text \<open>
  On day 6 of \<open>demo_pair\<close> the z-score 1 lies between the exit and the entry threshold:
  from the short-spread state held across the NaN days it keeps the signal at -1, from
  flat it would have emitted 0.
\<close>

lemma demo_pair_day6:
  "fst (signalStep (Fin (11 / 10)) (Fin 0) (- 1) (getZScores demo_pair 3 ! 6)) = - 1"
  "fst (signalStep (Fin (11 / 10)) (Fin 0) 0 (getZScores demo_pair 3 ! 6)) = 0"
  by (simp_all add: demo_pair_zscores signalStep_def double_ops)

text \<open>Over a run of NaN days the held direction stays what it was before the run.\<close>

lemma heldBefore_nan_run:
  assumes "i + n \<le> length zs" and "list_all isnan (take n (drop i zs))"
  shows "heldBefore e x zs (i + n) = heldBefore e x zs i"
  using assms
proof (induction n)
  case 0
  then show ?case by simp
next
  case (Suc n)
  from Suc.prems(1) have lt: "i + n < length zs" by simp
  have tk: "take (Suc n) (drop i zs) = take n (drop i zs) @ [zs ! (i + n)]"
    using lt by (simp add: take_Suc_conv_app_nth)
  with Suc.prems(2) have nan: "isnan (zs ! (i + n))" and rest: "list_all isnan (take n (drop i zs))"
    by simp_all
  from Suc.IH [OF _ rest] lt have "heldBefore e x zs (i + n) = heldBefore e x zs i" by simp
  moreover have "heldBefore e x zs (Suc (i + n)) = heldBefore e x zs (i + n)"
    using lt nan by (simp add: heldBefore_Suc signalStep_def)
  ultimately show ?case by simp
qed

text \<open>
  C2. On every day with a defined z-score \<^verbatim>\<open>generateSignals\<close> takes the transition of the
  three-state machine: the direction it holds is one of the three states, the signal it
  emits is the state the machine moves to from there under the day's z-score, and that
  state is the direction it holds on the next day. (From flat: short-spread when
  \<open>z > entryThreshold\<close>, else long-spread when \<open>z < - entryThreshold\<close>, else flat. From
  long-spread: flat when \<open>z \<ge> - exitThreshold\<close>, else long-spread. From short-spread: flat
  when \<open>z \<le> exitThreshold\<close>, else short-spread.)
\<close>

theorem generateSignals_state_machine:
  assumes "i < length (getZScores p lb)" and "\<not> isnan (getZScores p lb ! i)"
  shows "\<exists>st. heldBefore e x (getZScores p lb) i = signal_of st
            \<and> generateSignals p e x lb ! i = signal_of (spec_next e x st (getZScores p lb ! i))
            \<and> heldBefore e x (getZScores p lb) (Suc i)
                = signal_of (spec_next e x st (getZScores p lb ! i))"
proof -
  obtain st where st: "heldBefore e x (getZScores p lb) i = signal_of st"
    using held_is_state [OF heldBefore_range] by blast
  have "generateSignals p e x lb ! i = signal_of (spec_next e x st (getZScores p lb ! i))"
    using assms st by (simp add: generateSignals_nth signalStep_spec)
  moreover have "heldBefore e x (getZScores p lb) (Suc i)
                = signal_of (spec_next e x st (getZScores p lb ! i))"
    using assms st by (simp add: heldBefore_Suc signalStep_spec)
  ultimately show ?thesis using st by blast
qed

theorem generateSignals_state_machine_witness:
  "2 < length (getZScores demo_pair 3) \<and> \<not> isnan (getZScores demo_pair 3 ! 2)
   \<and> (\<exists>st. heldBefore (Fin (11 / 10)) (Fin 0) (getZScores demo_pair 3) 2 = signal_of st
          \<and> generateSignals demo_pair (Fin (11 / 10)) (Fin 0) 3 ! 2
              = signal_of (spec_next (Fin (11 / 10)) (Fin 0) st (getZScores demo_pair 3 ! 2))
          \<and> heldBefore (Fin (11 / 10)) (Fin 0) (getZScores demo_pair 3) (Suc 2)
              = signal_of (spec_next (Fin (11 / 10)) (Fin 0) st (getZScores demo_pair 3 ! 2)))"
proof -
  have h1: "2 < length (getZScores demo_pair 3)"
    by (simp add: demo_pair_zscores)
  have h2: "\<not> isnan (getZScores demo_pair 3 ! 2)"
    by (simp add: demo_pair_zscores isnan_def)
  from generateSignals_state_machine [OF h1 h2, of "Fin (11 / 10)" "Fin 0"] h1 h2
  show ?thesis by blast
qed

text \<open>
  C3. Let the \<open>n\<close> days from day \<open>i\<close> on have NaN z-scores. Each of them emits the flat
  signal, the direction held after them is the direction held before them (a NaN day
  triggers neither an entry nor an exit), and the day that follows them is evaluated from
  that same held direction.
\<close>

theorem generateSignals_nan_days:
  assumes "i + n \<le> length (getZScores p lb)"
    and "list_all isnan (take n (drop i (getZScores p lb)))"
  shows "take n (drop i (generateSignals p e x lb)) = replicate n 0
       \<and> heldBefore e x (getZScores p lb) (i + n) = heldBefore e x (getZScores p lb) i
       \<and> (i + n < length (getZScores p lb) \<longrightarrow>
            generateSignals p e x lb ! (i + n)
              = fst (signalStep e x (heldBefore e x (getZScores p lb) i)
                       (getZScores p lb ! (i + n))))"
proof -
  let ?zs = "getZScores p lb"
  let ?sg = "generateSignals p e x lb"
  have len: "length ?sg = length ?zs" by (rule length_generateSignals)
  have held: "heldBefore e x ?zs (i + n) = heldBefore e x ?zs i"
    using assms by (rule heldBefore_nan_run)
  have "take n (drop i ?sg) = replicate n 0"
  proof (rule nth_equalityI)
    show "length (take n (drop i ?sg)) = length (replicate n (0::int))"
      using assms(1) len by simp
  next
    fix k assume "k < length (take n (drop i ?sg))"
    then have k: "k < n" by simp
    with assms(1) have ik: "i + k < length ?zs" by simp
    from assms(2) k ik have "isnan (take n (drop i ?zs) ! k)"
      by (simp add: list_all_length)
    with k ik have "isnan (?zs ! (i + k))" by simp
    with ik have "?sg ! (i + k) = 0"
      by (simp add: generateSignals_nth signalStep_def)
    with k ik len show "take n (drop i ?sg) ! k = replicate n 0 ! k" by simp
  qed
  moreover have "?sg ! (i + n) = fst (signalStep e x (heldBefore e x ?zs i) (?zs ! (i + n)))"
    if "i + n < length ?zs"
    using that held by (simp add: generateSignals_nth)
  ultimately show ?thesis using held by blast
qed

theorem generateSignals_nan_days_witness:
  "3 + 3 \<le> length (getZScores demo_pair 3)
   \<and> list_all isnan (take 3 (drop 3 (getZScores demo_pair 3)))
   \<and> 3 + 3 < length (getZScores demo_pair 3)
   \<and> take 3 (drop 3 (generateSignals demo_pair (Fin (11 / 10)) (Fin 0) 3)) = replicate 3 0
   \<and> heldBefore (Fin (11 / 10)) (Fin 0) (getZScores demo_pair 3) (3 + 3) = - 1
   \<and> heldBefore (Fin (11 / 10)) (Fin 0) (getZScores demo_pair 3) 3 = - 1
   \<and> generateSignals demo_pair (Fin (11 / 10)) (Fin 0) 3 ! (3 + 3) = - 1"
proof -
  have h1: "3 + 3 \<le> length (getZScores demo_pair 3)"
    by (simp add: demo_pair_zscores)
  have h2: "list_all isnan (take 3 (drop 3 (getZScores demo_pair 3)))"
    by (simp add: demo_pair_zscores isnan_def)
  have h3: "3 + 3 < length (getZScores demo_pair 3)"
    by (simp add: demo_pair_zscores)
  have h4: "heldBefore (Fin (11 / 10)) (Fin 0) (getZScores demo_pair 3) 3 = - 1"
    using demo_pair_held by simp
  have h5: "fst (signalStep (Fin (11 / 10)) (Fin 0) (- 1) (getZScores demo_pair 3 ! (3 + 3))) = - 1"
    using demo_pair_day6(1) by simp
  from generateSignals_nan_days [OF h1 h2, of "Fin (11 / 10)" "Fin 0"] h1 h2 h3 h4 h5
  show ?thesis by simp
qed

text \<open>
  C4. Two consecutive days never carry two different non-flat signals: when both signals
  are non-flat they are equal, so a change of direction passes through a flat day.
\<close>

theorem generateSignals_no_direct_flip:
  assumes "Suc i < length (generateSignals p e x lb)"
    and "generateSignals p e x lb ! i \<noteq> 0"
    and "generateSignals p e x lb ! Suc i \<noteq> 0"
  shows "generateSignals p e x lb ! i = generateSignals p e x lb ! Suc i"
proof -
  let ?zs = "getZScores p lb"
  let ?h = "heldBefore e x ?zs"
  from assms(1) have len: "Suc i < length ?zs" by (simp add: length_generateSignals)
  then have i: "i < length ?zs" by simp
  have s0: "generateSignals p e x lb ! i = fst (signalStep e x (?h i) (?zs ! i))"
    using i by (rule generateSignals_nth)
  have s1: "generateSignals p e x lb ! Suc i = fst (signalStep e x (?h (Suc i)) (?zs ! Suc i))"
    using len by (rule generateSignals_nth)
  have h1: "?h (Suc i) = snd (signalStep e x (?h i) (?zs ! i))"
    using i by (rule heldBefore_Suc)
  have "snd (signalStep e x (?h i) (?zs ! i)) = fst (signalStep e x (?h i) (?zs ! i))"
    using assms(2) s0 heldBefore_range by (intro signalStep_emits_held) simp_all
  with h1 s0 have held: "?h (Suc i) = generateSignals p e x lb ! i" by simp
  with assms(2) have "?h (Suc i) \<noteq> 0" by simp
  from signalStep_from_held [OF this, of e x "?zs ! Suc i"] s1 assms(3) held
  show ?thesis by simp
qed

lemma ramp_pair_signals:
  "generateSignals ramp_pair (Fin (1 / 2)) (Fin 0) 3 = [0, 0, - 1, - 1]"
  by (simp add: generateSignals_def ramp_pair_def newAssetPair_def calculateSpreads_def
      rolling_defs signalStep_def double_ops)

theorem generateSignals_no_direct_flip_witness:
  "Suc 2 < length (generateSignals ramp_pair (Fin (1 / 2)) (Fin 0) 3)
   \<and> generateSignals ramp_pair (Fin (1 / 2)) (Fin 0) 3 ! 2 \<noteq> 0
   \<and> generateSignals ramp_pair (Fin (1 / 2)) (Fin 0) 3 ! Suc 2 \<noteq> 0
   \<and> generateSignals ramp_pair (Fin (1 / 2)) (Fin 0) 3 ! 2
       = generateSignals ramp_pair (Fin (1 / 2)) (Fin 0) 3 ! Suc 2"
proof -
  have h1: "Suc 2 < length (generateSignals ramp_pair (Fin (1 / 2)) (Fin 0) 3)"
    by (simp add: ramp_pair_signals)
  have h2: "generateSignals ramp_pair (Fin (1 / 2)) (Fin 0) 3 ! 2 \<noteq> 0"
    by (simp add: ramp_pair_signals)
  have h3: "generateSignals ramp_pair (Fin (1 / 2)) (Fin 0) 3 ! Suc 2 \<noteq> 0"
    by (simp add: ramp_pair_signals)
  from generateSignals_no_direct_flip [OF h1 h2 h3] h1 h2 h3
  show ?thesis by blast
qed

section \<open>The stationarity test\<close>

text \<open>
  C6. With fewer than 20 observations \<^verbatim>\<open>adfTest\<close> returns the fixed result: statistic 0,
  p-value 1, not stationary, whatever the series and \<^verbatim>\<open>maxLags\<close>; the result does not
  depend on any regression.
\<close>

theorem adfTest_short_series:
  "length timeSeries < 20 \<Longrightarrow>
   adfTest timeSeries maxLags
     = \<lparr>testStatistic = Fin 0, pValue = Fin 1, isStationary = False\<rparr>"
  by (simp add: adfTest_def)

theorem adfTest_short_series_witness:
  "length [Fin 3, Fin 1, Fin 2] < 20
   \<and> adfTest [Fin 3, Fin 1, Fin 2] 1
       = \<lparr>testStatistic = Fin 0, pValue = Fin 1, isStationary = False\<rparr>"
proof -
  have h: "length [Fin 3, Fin 1, Fin 2] < 20" by simp
  from adfTest_short_series [OF h, of 1] h show ?thesis by blast
qed

lemma rep20: "replicate 20 x = [x,x,x,x,x,x,x,x,x,x,x,x,x,x,x,x,x,x,x,x]"
  by (simp add: numeral_eq_Suc)

lemma length_alternating: "length alternating = 20"
  by (simp add: alternating_def)

text \<open>
  The verdict and the statistic do depend on the series: the alternating series is
  stationary with statistic \<open>-\<infinity>\<close>, a constant series is not (its statistic is NaN).
\<close>

lemma adfTest_varies:
  "adfTest alternating 1
     = \<lparr>testStatistic = NInf, pValue = Fin (5 / 100), isStationary = True\<rparr>"
  "adfTest (replicate 20 (Fin 1)) 1
     = \<lparr>testStatistic = NaN, pValue = Fin (5 / 100), isStationary = False\<rparr>"
  by (simp_all add: adfTest_def alternating_def rep20 linearRegression_def double_ops Let_def
      criticalValue_def size_sub_def SIZE_MOD_def)

text \<open>
  C10. With at least 20 observations the p-value \<^verbatim>\<open>adfTest\<close> returns is the constant 0.05,
  whatever the series and \<^verbatim>\<open>maxLags\<close>, while the test statistic and the verdict vary with
  the series: two series of 20 observations give the same p-value with different
  statistics and different verdicts.
\<close>

theorem adfTest_pValue_constant:
  "20 \<le> length timeSeries \<Longrightarrow>
   pValue (adfTest timeSeries maxLags) = Fin (5 / 100)
   \<and> 20 \<le> length alternating \<and> 20 \<le> length (replicate 20 (Fin 1 :: double))
   \<and> adfTest alternating 1
       = \<lparr>testStatistic = NInf, pValue = Fin (5 / 100), isStationary = True\<rparr>
   \<and> adfTest (replicate 20 (Fin 1)) 1
       = \<lparr>testStatistic = NaN, pValue = Fin (5 / 100), isStationary = False\<rparr>
   \<and> testStatistic (adfTest alternating 1) \<noteq> testStatistic (adfTest (replicate 20 (Fin 1)) 1)
   \<and> isStationary (adfTest alternating 1) \<noteq> isStationary (adfTest (replicate 20 (Fin 1)) 1)"
  by (simp add: adfTest_varies length_alternating) (simp add: adfTest_def Let_def)

theorem adfTest_pValue_constant_witness:
  "20 \<le> length alternating \<and> pValue (adfTest alternating 1) = Fin (5 / 100)
   \<and> testStatistic (adfTest alternating 1) \<noteq> testStatistic (adfTest (replicate 20 (Fin 1)) 1)
   \<and> isStationary (adfTest alternating 1) \<noteq> isStationary (adfTest (replicate 20 (Fin 1)) 1)"
proof -
  have h: "20 \<le> length alternating" by (simp add: length_alternating)
  from adfTest_pValue_constant [OF h, of 1] h show ?thesis by blast
qed

section \<open>The cointegration test\<close>

lemma calculateSpreads_prices:
  "pricesA (calculateSpreads p) = pricesA p" "pricesB (calculateSpreads p) = pricesB p"
  "pair_beta (calculateSpreads p) = pair_beta p"
  by (simp_all add: calculateSpreads_def)

lemma calculateSpreads_cong:
  "pricesA p = pricesA q \<Longrightarrow> pricesB p = pricesB q \<Longrightarrow> pair_beta p = pair_beta q \<Longrightarrow>
   spreads (calculateSpreads p) = spreads (calculateSpreads q)"
  by (simp add: calculateSpreads_def)

lemma testCointegration_prices:
  "pricesA (fst (testCointegration p s)) = pricesA p"
  "pricesB (fst (testCointegration p s)) = pricesB p"
  by (simp_all add: testCointegration_def Let_def calculateSpreads_prices)

text \<open>
  C8. A second call of \<^verbatim>\<open>testCointegration\<close> on the pair the first call left (the prices
  are the same) produces the same beta, the same spreads, the same cointegration flag and
  returns the same verdict, whatever significance levels are passed.
\<close>

theorem testCointegration_idempotent:
  "pair_beta (fst (testCointegration (fst (testCointegration p s)) s'))
     = pair_beta (fst (testCointegration p s))
   \<and> spreads (fst (testCointegration (fst (testCointegration p s)) s'))
     = spreads (fst (testCointegration p s))
   \<and> isCointegrated (fst (testCointegration (fst (testCointegration p s)) s'))
     = isCointegrated (fst (testCointegration p s))
   \<and> snd (testCointegration (fst (testCointegration p s)) s') = snd (testCointegration p s)"
proof -
  let ?p1 = "fst (testCointegration p s)"
  have reg: "linearRegression (pricesB ?p1) (pricesA ?p1)
             = linearRegression (pricesB p) (pricesA p)"
    by (simp add: testCointegration_prices)
  have beta1: "pair_beta ?p1 = beta (linearRegression (pricesB p) (pricesA p))"
    by (simp add: testCointegration_def Let_def calculateSpreads_prices)
  have beta2: "pair_beta (fst (testCointegration ?p1 s'))
               = beta (linearRegression (pricesB ?p1) (pricesA ?p1))"
    by (simp add: testCointegration_def Let_def calculateSpreads_prices)
  have sp1: "spreads ?p1
             = spreads (calculateSpreads
                 (p\<lparr>pair_beta := beta (linearRegression (pricesB p) (pricesA p))\<rparr>))"
    by (simp add: testCointegration_def Let_def)
  have sp2: "spreads (fst (testCointegration ?p1 s'))
             = spreads (calculateSpreads
                 (?p1\<lparr>pair_beta := beta (linearRegression (pricesB ?p1) (pricesA ?p1))\<rparr>))"
    by (simp add: testCointegration_def Let_def)
  have sp: "spreads (fst (testCointegration ?p1 s')) = spreads ?p1"
    unfolding sp1 sp2 by (rule calculateSpreads_cong) (simp_all add: testCointegration_prices)
  have v1: "snd (testCointegration p s) = isStationary (adfTest (spreads ?p1) 1)"
    by (simp add: testCointegration_def Let_def)
  have v2: "snd (testCointegration ?p1 s')
            = isStationary (adfTest (spreads (fst (testCointegration ?p1 s'))) 1)"
    by (simp add: testCointegration_def Let_def)
  have c1: "isCointegrated ?p1 = snd (testCointegration p s)"
    by (simp add: testCointegration_def Let_def)
  have c2: "isCointegrated (fst (testCointegration ?p1 s')) = snd (testCointegration ?p1 s')"
    by (simp add: testCointegration_def Let_def)
  from reg beta1 beta2 sp v1 v2 c1 c2 show ?thesis by simp
qed

section \<open>The maximum drawdown\<close>

lemma drawdownLoop_ge0:
  "dge maxDD (Fin 0) \<Longrightarrow> dge (drawdownLoop maxValue maxDD vs) (Fin 0)"
proof (induction vs arbitrary: maxValue maxDD)
  case Nil
  then show ?case by simp
next
  case (Cons v vs)
  have gt: "dgt d maxDD \<Longrightarrow> dge d (Fin 0)" for d
    using Cons.prems
    by (cases d; cases maxDD) (auto simp: dgt_def dlt_def dge_def dle_def)
  show ?case
    using Cons.IH Cons.prems gt by (simp add: Let_def)
qed

lemma step_drawdown:
  assumes "not_negative m" "not_negative v" "\<not> dgt v m"
  shows "ddiv (dsub m v) m = NaN \<or> (\<exists>d. ddiv (dsub m v) m = Fin d \<and> 0 \<le> d \<and> d \<le> 1)"
proof (cases m)
  case (Fin a)
  note m = this
  show ?thesis
  proof (cases v)
    case (Fin b)
    with m assms have ab: "0 \<le> b" "b \<le> a" "a \<le> DBL_MAX" "0 \<le> a"
      by (auto simp: not_negative_def dgt_def dlt_def)
    then have sub: "dsub m v = Fin (a - b)"
      using m Fin by (auto simp: dsub_def dadd_def dneg_def overflow_def)
    show ?thesis
    proof (cases "a = 0")
      case True
      with ab sub m show ?thesis by (simp add: ddiv_def)
    next
      case False
      with ab have "0 \<le> (a - b) / a" "(a - b) / a \<le> 1" by (auto simp: divide_simps)
      moreover have "1 \<le> DBL_MAX" using DBL_MAX_ge by simp
      ultimately have "overflow ((a - b) / a) = Fin ((a - b) / a)"
        by (auto simp: overflow_def)
      with False sub m \<open>0 \<le> (a - b) / a\<close> \<open>(a - b) / a \<le> 1\<close> show ?thesis
        by (simp add: ddiv_def)
    qed
  next
    case PInf
    with m assms show ?thesis by (simp add: dgt_def dlt_def)
  next
    case NInf
    with assms show ?thesis by (simp add: not_negative_def)
  next
    case NaN
    with m show ?thesis by (simp add: dsub_def dadd_def dneg_def ddiv_def)
  qed
next
  case PInf
  then show ?thesis by (cases v) (simp_all add: dsub_def dadd_def dneg_def ddiv_def)
next
  case NInf
  with assms show ?thesis by (simp add: not_negative_def)
next
  case NaN
  then show ?thesis by (simp add: dsub_def dadd_def dneg_def ddiv_def)
qed

lemma drawdownLoop_le1:
  assumes "not_negative maxValue" "0 \<le> d" "d \<le> 1" "\<forall>v\<in>set vs. not_negative v"
  shows "\<exists>d'. drawdownLoop maxValue (Fin d) vs = Fin d' \<and> 0 \<le> d' \<and> d' \<le> 1"
  using assms
proof (induction vs arbitrary: maxValue d)
  case Nil
  then show ?case by simp
next
  case (Cons v vs)
  show ?case
  proof (cases "dgt v maxValue")
    case True
    with Cons.IH [of v d] Cons.prems show ?thesis by simp
  next
    case False
    from step_drawdown [OF Cons.prems(1) _ False] Cons.prems(4)
    consider "ddiv (dsub maxValue v) maxValue = NaN"
      | d1 where "ddiv (dsub maxValue v) maxValue = Fin d1" "0 \<le> d1" "d1 \<le> 1"
      by auto
    then show ?thesis
    proof cases
      case 1
      with False Cons.IH [of maxValue d] Cons.prems show ?thesis
        by (simp add: dgt_def dlt_def)
    next
      case 2
      show ?thesis
      proof (cases "dgt (Fin d1) (Fin d)")
        case True
        with False 2 Cons.IH [of maxValue d1] Cons.prems show ?thesis by simp
      next
        case False
        with \<open>\<not> dgt v maxValue\<close> 2 Cons.IH [of maxValue d] Cons.prems show ?thesis by simp
      qed
    qed
  qed
qed


lemma calculateMetrics_maxDrawdown:
  "portfolioValues bt \<noteq> [] \<Longrightarrow>
   maxDrawdown (metrics (calculateMetrics pow bt)) = calculateMaxDrawdown (portfolioValues bt)"
  by (simp add: calculateMetrics_def Let_def)

text \<open>
  C7, as the code has it. The maximum drawdown \<^verbatim>\<open>calculateMetrics\<close> computes from a
  non-empty value series is never negative (and never NaN); it is at most 1 when no value
  of the series is negative.
\<close>

theorem calculateMetrics_maxDrawdown_range:
  assumes "portfolioValues bt \<noteq> []"
  shows "dge (maxDrawdown (metrics (calculateMetrics pow bt))) (Fin 0)
       \<and> (list_all not_negative (portfolioValues bt) \<longrightarrow>
            dle (maxDrawdown (metrics (calculateMetrics pow bt))) (Fin 1))"
proof -
  let ?pv = "portfolioValues bt"
  have dd: "maxDrawdown (metrics (calculateMetrics pow bt)) = drawdownLoop (?pv ! 0) (Fin 0) ?pv"
    using assms by (simp add: calculateMetrics_maxDrawdown calculateMaxDrawdown_def)
  have "dge (drawdownLoop (?pv ! 0) (Fin 0) ?pv) (Fin 0)"
    by (rule drawdownLoop_ge0) (simp add: dge_def dle_def)
  moreover have "dle (drawdownLoop (?pv ! 0) (Fin 0) ?pv) (Fin 1)"
    if all: "list_all not_negative ?pv"
  proof -
    from all have mem: "\<forall>v\<in>set ?pv. not_negative v" by (simp add: list_all_iff)
    from assms have "?pv ! 0 \<in> set ?pv" by (simp add: nth_mem)
    with mem have "not_negative (?pv ! 0)" by blast
    from drawdownLoop_le1 [OF this _ _ mem, of 0]
    obtain d' where "drawdownLoop (?pv ! 0) (Fin 0) ?pv = Fin d'" "d' \<le> 1" by auto
    then show ?thesis by (simp add: dle_def)
  qed
  ultimately show ?thesis using dd by simp
qed

theorem calculateMetrics_maxDrawdown_range_witness:
  "portfolioValues drawdown_engine \<noteq> []
   \<and> list_all not_negative (portfolioValues drawdown_engine)
   \<and> (\<forall>pow. dge (maxDrawdown (metrics (calculateMetrics pow drawdown_engine))) (Fin 0)
            \<and> dle (maxDrawdown (metrics (calculateMetrics pow drawdown_engine))) (Fin 1))"
proof -
  have h1: "portfolioValues drawdown_engine \<noteq> []"
    by (simp add: drawdown_engine_def)
  have "(0::real) \<le> DBL_MAX" "(80::real) \<le> DBL_MAX" "(90::real) \<le> DBL_MAX"
    "(100::real) \<le> DBL_MAX" "(120::real) \<le> DBL_MAX"
    using DBL_MAX_ge by simp_all
  then have h2: "list_all not_negative (portfolioValues drawdown_engine)"
    by (simp add: drawdown_engine_def not_negative_def)
  from calculateMetrics_maxDrawdown_range [OF h1] h1 h2 show ?thesis by blast
qed

text \<open>
  The claim as stated fails on a series with a negative value: after the peak 100 the
  value -50 is a drawdown of 1.5.
\<close>

theorem calculateMaxDrawdown_counterexample:
  "calculateMaxDrawdown [Fin 100, Fin (- 50)] = Fin (3 / 2)
   \<and> \<not> dle (calculateMaxDrawdown [Fin 100, Fin (- 50)]) (Fin 1)"
  by (simp add: calculateMaxDrawdown_def double_ops)

section \<open>The rolling z-score\<close>

subsection \<open>Rounding to the nearest double\<close>

lemma round_even_cases:
  "round_even r = \<lfloor>r\<rfloor> \<or> round_even r = \<lfloor>r\<rfloor> + 1"
  by (simp add: round_even_def Let_def)

lemma round_even_error: "\<bar>of_int (round_even r) - r\<bar> \<le> 1 / 2"
  unfolding round_even_def Let_def
  by (auto simp: abs_if) linarith+

lemma round_even_of_int [simp]: "round_even (of_int n) = n"
  by (simp add: round_even_def)

lemma round_even_mono:
  assumes "r \<le> s"
  shows "round_even r \<le> round_even s"
proof (cases "\<lfloor>r\<rfloor> = \<lfloor>s\<rfloor>")
  case True
  with assms show ?thesis
    by (auto simp: round_even_def Let_def)
next
  case False
  with assms have "\<lfloor>r\<rfloor> < \<lfloor>s\<rfloor>" by (simp add: floor_mono order_neq_le_trans)
  then have "\<lfloor>r\<rfloor> + 1 \<le> \<lfloor>s\<rfloor>" by simp
  moreover have "round_even r \<le> \<lfloor>r\<rfloor> + 1" using round_even_cases [of r] by auto
  moreover have "\<lfloor>s\<rfloor> \<le> round_even s" using round_even_cases [of s] by auto
  ultimately show ?thesis by linarith
qed

lemma round_even_le_int: "r \<le> of_int n \<Longrightarrow> round_even r \<le> n"
  using round_even_mono [of r "of_int n"] by simp

lemma round_even_ge_int: "of_int n \<le> r \<Longrightarrow> n \<le> round_even r"
  using round_even_mono [of "of_int n" r] by simp

lemma floor_log2_bounds:
  assumes "0 < x"
  shows "2 powi \<lfloor>log 2 x\<rfloor> \<le> x" "x < 2 powi (\<lfloor>log 2 x\<rfloor> + 1)"
proof -
  have "(2::real) powr \<lfloor>log 2 x\<rfloor> \<le> x \<and> x < 2 powr (\<lfloor>log 2 x\<rfloor> + 1)"
    using floor_log_eq_powr_iff [of x 2 "\<lfloor>log 2 x\<rfloor>"] assms by simp
  then show "2 powi \<lfloor>log 2 x\<rfloor> \<le> x" "x < 2 powi (\<lfloor>log 2 x\<rfloor> + 1)"
    using powr_real_of_int' [of 2 "\<lfloor>log 2 x\<rfloor>"] powr_real_of_int' [of 2 "\<lfloor>log 2 x\<rfloor> + 1"]
    by simp_all
qed

lemma floor_log2_unique:
  assumes "2 powi k \<le> x" "x < 2 powi (k + 1)"
  shows "\<lfloor>log 2 x\<rfloor> = k"
proof -
  have "0 < (2::real) powi k" by simp
  with assms have x: "0 < x" by linarith
  have "(2::real) powr k \<le> x \<and> x < 2 powr (k + 1)"
    using assms powr_real_of_int' [of 2 k] powr_real_of_int' [of 2 "k + 1"] by simp
  then show ?thesis using floor_log_eq_powr_iff [of x 2 k] x by simp
qed


lemma round_even_nonneg: "0 \<le> r \<Longrightarrow> 0 \<le> round_even r"
  using round_even_ge_int [of 0 r] by simp

lemma round_even_le_double:
  assumes "0 \<le> r"
  shows "of_int (round_even r) \<le> 2 * r"
proof (cases "r < 1 / 2")
  case True
  with assms have "\<lfloor>r\<rfloor> = 0" by (simp add: floor_eq_iff)
  with True assms show ?thesis by (simp add: round_even_def)
next
  case False
  then show ?thesis using round_even_error [of r] by linarith
qed

lemma round_even_ge_half:
  assumes "0 \<le> r" "round_even r \<noteq> 0"
  shows "r \<le> 2 * of_int (round_even r)"
proof -
  from assms round_even_nonneg [OF assms(1)] have "1 \<le> round_even r" by simp
  then have "(1::real) \<le> of_int (round_even r)" by linarith
  with round_even_error [of r] show ?thesis by linarith
qed

lemma round_even_zero_le_half: "round_even r = 0 \<Longrightarrow> r \<le> 1 / 2"
  using round_even_error [of r] by simp

lemma ulp64_pos [simp]: "0 < ulp64 x"
  by (simp add: ulp64_def)

lemma ulp64_nonneg [simp]: "0 \<le> ulp64 x"
  using ulp64_pos [of x] by (rule less_imp_le)

lemma ulp64_neq0 [simp]: "ulp64 x \<noteq> 0"
  using ulp64_pos [of x] by linarith

lemma ulp64_ge_min: "2 powi (- 1074) \<le> ulp64 x"
proof -
  have "(- 1074 :: int) \<le> max \<lfloor>log 2 x\<rfloor> (- 1022) - 52" by linarith
  then show ?thesis unfolding ulp64_def by (rule power_int_increasing) simp
qed

lemma powi_split: "(2::real) powi (a + b) = 2 powi a * 2 powi b"
  by (rule power_int_add) simp

lemma ulp64_normal:
  assumes "0 < x" "- 1022 \<le> \<lfloor>log 2 x\<rfloor>"
  shows "ulp64 x * 2 powi 52 \<le> x"
proof -
  have "max \<lfloor>log 2 x\<rfloor> (- 1022) = \<lfloor>log 2 x\<rfloor>" using assms(2) by (rule max_absorb1)
  then have "ulp64 x * 2 powi 52 = 2 powi (\<lfloor>log 2 x\<rfloor> - 52) * 2 powi 52"
    by (simp only: ulp64_def)
  also have "\<dots> = 2 powi (\<lfloor>log 2 x\<rfloor> - 52 + 52)"
    by (simp only: powi_split)
  also have "\<dots> = 2 powi \<lfloor>log 2 x\<rfloor>" by simp
  also have "\<dots> \<le> x" using floor_log2_bounds(1) [OF assms(1)] .
  finally show ?thesis .
qed

lemma ulp64_le:
  assumes "0 < x" "- 1022 \<le> \<lfloor>log 2 x\<rfloor>"
  shows "2 * ulp64 x \<le> x"
proof -
  have "(2::real) powi 1 \<le> 2 powi 52" by (rule power_int_increasing) simp_all
  then have "(2::real) \<le> 2 powi 52" by simp
  then have "2 * ulp64 x \<le> 2 powi 52 * ulp64 x"
    by (rule mult_right_mono) simp
  moreover have "2 powi 52 * ulp64 x = ulp64 x * 2 powi 52" by (rule mult.commute)
  ultimately show ?thesis using ulp64_normal [OF assms] by linarith
qed

lemma ulp64_subnormal:
  assumes "\<lfloor>log 2 x\<rfloor> < - 1022"
  shows "ulp64 x = 2 powi (- 1074)"
proof -
  have "max \<lfloor>log 2 x\<rfloor> (- 1022) = - 1022" using assms by (intro max_absorb2) simp
  then show ?thesis by (simp add: ulp64_def)
qed

lemma quotient_lt:
  assumes "0 < x"
  shows "x < ulp64 x * 2 powi 53"
proof -
  let ?e = "\<lfloor>log 2 x\<rfloor>"
  have "x < 2 powi (?e + 1)" using floor_log2_bounds(2) [OF assms] .
  also have "\<dots> \<le> 2 powi (max ?e (- 1022) + 1)"
    by (rule power_int_increasing) simp_all
  also have "max ?e (- 1022) + 1 = max ?e (- 1022) - 52 + 53" by simp
  also have "2 powi (max ?e (- 1022) - 52 + 53) = ulp64 x * 2 powi 53"
    by (simp only: powi_split ulp64_def)
  finally show ?thesis .
qed

lemma round_pos_0 [simp]: "round_pos 0 = 0"
  by (simp add: round_pos_def)

lemma round_pos_nonneg: "0 \<le> x \<Longrightarrow> 0 \<le> round_pos x"
  by (simp add: round_pos_def round_even_nonneg)

lemma round_pos_le_double:
  assumes "0 \<le> x"
  shows "round_pos x \<le> 2 * x"
proof (cases "x = 0")
  case True
  then show ?thesis by simp
next
  case False
  have "0 \<le> x / ulp64 x" using assms by simp
  from round_even_le_double [OF this]
  have "of_int (round_even (x / ulp64 x)) * ulp64 x \<le> 2 * (x / ulp64 x) * ulp64 x"
    by (intro mult_right_mono) simp_all
  with False show ?thesis by (simp add: round_pos_def)
qed

lemma round_pos_ge_half:
  assumes "0 \<le> x" "round_pos x \<noteq> 0"
  shows "x \<le> 2 * round_pos x"
proof -
  from assms(2) have x: "x \<noteq> 0" and n: "round_even (x / ulp64 x) \<noteq> 0"
    by (auto simp: round_pos_def split: if_splits)
  have "0 \<le> x / ulp64 x" using assms(1) by simp
  from round_even_ge_half [OF this n]
  have "x / ulp64 x * ulp64 x \<le> 2 * of_int (round_even (x / ulp64 x)) * ulp64 x"
    by (intro mult_right_mono) simp_all
  with x show ?thesis by (simp add: round_pos_def)
qed

lemma round_pos_zero:
  assumes "0 \<le> x" "round_pos x = 0"
  shows "x \<le> 2 powi (- 1075)"
proof (cases "x = 0")
  case True
  then show ?thesis by simp
next
  case False
  with assms have x: "0 < x" by simp
  from assms(2) False have "round_even (x / ulp64 x) = 0" by (simp add: round_pos_def)
  from round_even_zero_le_half [OF this] have half: "2 * x \<le> ulp64 x"
    by (simp add: divide_simps)
  have sub: "\<lfloor>log 2 x\<rfloor> < - 1022"
  proof (rule ccontr)
    assume "\<not> \<lfloor>log 2 x\<rfloor> < - 1022"
    then have "- 1022 \<le> \<lfloor>log 2 x\<rfloor>" by linarith
    from ulp64_le [OF x this] half x show False by linarith
  qed
  have "(2::real) powi (- 1075 + 1) = 2 powi (- 1075) * 2 powi 1" by (rule powi_split)
  then have "(2::real) powi (- 1074) = 2 * 2 powi (- 1075)" by simp
  with half ulp64_subnormal [OF sub] show ?thesis by linarith
qed

lemma round_pos_min:
  assumes "0 < round_pos x"
  shows "2 powi (- 1074) \<le> round_pos x"
proof -
  from assms have x: "x \<noteq> 0" by (auto simp: round_pos_def split: if_splits)
  with assms have "0 < of_int (round_even (x / ulp64 x)) * ulp64 x" by (simp add: round_pos_def)
  then have "(0::real) < of_int (round_even (x / ulp64 x))"
    using ulp64_pos [of x] by (rule zero_less_mult_pos2)
  then have "0 < round_even (x / ulp64 x)" by simp
  then have "(1::real) \<le> of_int (round_even (x / ulp64 x))" by linarith
  then have "1 * ulp64 x \<le> of_int (round_even (x / ulp64 x)) * ulp64 x"
    by (intro mult_right_mono) simp_all
  then have B: "ulp64 x \<le> of_int (round_even (x / ulp64 x)) * ulp64 x"
    by (simp only: mult_1)
  have C: "round_pos x = of_int (round_even (x / ulp64 x)) * ulp64 x"
    using x by (simp only: round_pos_def if_False)
  from ulp64_ge_min B have "2 powi (- 1074) \<le> of_int (round_even (x / ulp64 x)) * ulp64 x"
    by (rule order_trans)
  then show ?thesis by (simp only: C)
qed


lemma powi_lt_imp_lt:
  assumes "(2::real) powi a < 2 powi b"
  shows "a < b"
proof (rule ccontr)
  assume "\<not> a < b"
  then have "b \<le> a" by simp
  then have "(2::real) powi b \<le> 2 powi a" by (rule power_int_increasing) simp
  with assms show False by linarith
qed

lemma ulp64_quotient_int:
  assumes "ulp64 x = 2 powi E" "E \<le> k"
  shows "of_int m * 2 powi k / ulp64 x = of_int (m * 2 ^ nat (k - E))"
proof -
  have "(2::real) powi k = 2 powi (k - E + E)" by simp
  also have "\<dots> = 2 powi (k - E) * 2 powi E" by (rule powi_split)
  also have "(2::real) powi (k - E) = 2 ^ nat (k - E)"
    using assms(2) by (simp add: power_int_def)
  finally have "(2::real) powi k = 2 ^ nat (k - E) * 2 powi E" .
  then show ?thesis using assms(1) by simp
qed

lemma round_pos_exact:
  fixes m k :: int
  assumes "0 < m" "m < 2 ^ 53" "- 1074 \<le> k"
  shows "round_pos (of_int m * 2 powi k) = of_int m * 2 powi k"
proof -
  define x :: real where "x = of_int m * 2 powi k"
  have xpos: "0 < x" using assms(1) by (simp add: x_def)
  define e where "e = \<lfloor>log 2 x\<rfloor>"
  define E where "E = max e (- 1022) - 52"
  have u: "ulp64 x = 2 powi E" by (simp add: ulp64_def E_def e_def)
  have "real_of_int m < 2 ^ 53"
  proof -
    have "real_of_int m < real_of_int (2 ^ 53)" using assms(2) by (simp only: of_int_less_iff)
    then show ?thesis by simp
  qed
  then have "x < 2 ^ 53 * 2 powi k"
    unfolding x_def by (intro mult_strict_right_mono) simp_all
  also have "(2::real) ^ 53 * 2 powi k = 2 powi (53 + k)"
    by (simp only: powi_split) simp
  finally have "x < 2 powi (53 + k)" .
  moreover have "2 powi e \<le> x" unfolding e_def using floor_log2_bounds(1) [OF xpos] .
  ultimately have "(2::real) powi e < 2 powi (53 + k)" by linarith
  then have "e < 53 + k" by (rule powi_lt_imp_lt)
  with assms(3) have Ek: "E \<le> k" unfolding E_def by linarith
  have "of_int m * 2 powi k / ulp64 x = of_int (m * 2 ^ nat (k - E))"
    using u Ek by (rule ulp64_quotient_int)
  then have q: "x / ulp64 x = of_int (m * 2 ^ nat (k - E))"
    by (simp only: x_def)
  have "round_pos x = of_int (round_even (x / ulp64 x)) * ulp64 x"
    using xpos by (simp add: round_pos_def)
  also have "\<dots> = x / ulp64 x * ulp64 x"
    by (simp only: q round_even_of_int)
  also have "\<dots> = x" by simp
  finally show ?thesis unfolding x_def .
qed

lemma round_pos_idem:
  assumes "0 \<le> x"
  shows "round_pos (round_pos x) = round_pos x"
proof (cases "x = 0")
  case True
  then show ?thesis by simp
next
  case False
  with assms have xpos: "0 < x" by simp
  define E where "E = max \<lfloor>log 2 x\<rfloor> (- 1022) - 52"
  define N where "N = round_even (x / ulp64 x)"
  have u: "ulp64 x = 2 powi E" by (simp add: ulp64_def E_def)
  have E: "- 1074 \<le> E" unfolding E_def by linarith
  have rp: "round_pos x = of_int N * 2 powi E"
    using False u by (simp add: round_pos_def N_def)
  have "0 \<le> x / ulp64 x" using assms by simp
  then have N0: "0 \<le> N" unfolding N_def by (rule round_even_nonneg)
  have "x / ulp64 x \<le> 2 powi 53"
    using quotient_lt [OF xpos] by (simp add: divide_simps mult.commute)
  then have "x / ulp64 x \<le> of_int (2 ^ 53)" by simp
  then have N53: "N \<le> 2 ^ 53" unfolding N_def by (rule round_even_le_int)
  consider "N = 0" | "0 < N" "N < 2 ^ 53" | "N = 2 ^ 53" using N0 N53 by linarith
  then show ?thesis
  proof cases
    case 1
    then show ?thesis by (simp add: rp)
  next
    case 2
    then show ?thesis unfolding rp using E by (rule round_pos_exact)
  next
    case 3
    have "(2::real) powi (E + 1) = 2 powi E * 2 powi 1" by (rule powi_split)
    then have "of_int N * (2::real) powi E = of_int (2 ^ 52) * 2 powi (E + 1)"
      using 3 by simp
    moreover have "round_pos (of_int (2 ^ 52) * 2 powi (E + 1)) = of_int (2 ^ 52) * 2 powi (E + 1)"
      using E by (intro round_pos_exact) simp_all
    ultimately show ?thesis by (simp only: rp)
  qed
qed

lemma round_pos_mono:
  assumes "0 \<le> x" "x \<le> y"
  shows "round_pos x \<le> round_pos y"
proof (cases "x = 0")
  case True
  with assms show ?thesis by (simp add: round_pos_nonneg)
next
  case False
  with assms have xpos: "0 < x" and ypos: "0 < y" by simp_all
  define ex where "ex = \<lfloor>log 2 x\<rfloor>"
  define ey where "ey = \<lfloor>log 2 y\<rfloor>"
  define Ex where "Ex = max ex (- 1022) - 52"
  define Ey where "Ey = max ey (- 1022) - 52"
  have ux: "ulp64 x = 2 powi Ex" by (simp add: ulp64_def Ex_def ex_def)
  have uy: "ulp64 y = 2 powi Ey" by (simp add: ulp64_def Ey_def ey_def)
  have rx: "round_pos x = of_int (round_even (x / 2 powi Ex)) * 2 powi Ex"
    using False ux by (simp add: round_pos_def)
  have ry: "round_pos y = of_int (round_even (y / 2 powi Ey)) * 2 powi Ey"
    using ypos uy by (simp add: round_pos_def)
  have "log 2 x \<le> log 2 y" using xpos assms(2) by simp
  then have exy: "ex \<le> ey" unfolding ex_def ey_def by (rule floor_mono)
  then have Exy: "Ex \<le> Ey" unfolding Ex_def Ey_def by linarith
  show ?thesis
  proof (cases "Ex = Ey")
    case True
    have "x / 2 powi Ey \<le> y / 2 powi Ey"
      using assms(2) by (intro divide_right_mono) simp_all
    then have "round_even (x / 2 powi Ey) \<le> round_even (y / 2 powi Ey)"
      by (rule round_even_mono)
    then have "real_of_int (round_even (x / 2 powi Ey)) \<le> real_of_int (round_even (y / 2 powi Ey))"
      by simp
    then have "real_of_int (round_even (x / 2 powi Ey)) * 2 powi Ey
               \<le> real_of_int (round_even (y / 2 powi Ey)) * 2 powi Ey"
      by (intro mult_right_mono) simp_all
    then show ?thesis by (simp only: rx ry True)
  next
    case False
    with Exy have lt: "Ex < Ey" by simp
    then have ey1: "- 1022 < ey" and eyE: "Ey = ey - 52" and Exey: "Ex + 52 < ey" and exey: "ex < ey"
      unfolding Ex_def Ey_def by linarith+
    define B :: real where "B = 2 powi ey"
    have "x < 2 powi (ex + 1)" unfolding ex_def using floor_log2_bounds(2) [OF xpos] .
    also have "\<dots> \<le> B" unfolding B_def using exey by (intro power_int_increasing) simp_all
    finally have xB: "x \<le> B" by simp
    have By: "B \<le> y" unfolding B_def ey_def using floor_log2_bounds(1) [OF ypos] .
    \<comment> \<open>the binade boundary is a multiple of both units\<close>
    have Bx: "B / 2 powi Ex = of_int (2 ^ nat (ey - Ex))"
    proof -
      have "(2::real) powi ey = 2 powi (ey - Ex + Ex)" by simp
      also have "\<dots> = 2 powi (ey - Ex) * 2 powi Ex" by (rule powi_split)
      also have "(2::real) powi (ey - Ex) = 2 ^ nat (ey - Ex)"
        using Exey by (simp add: power_int_def)
      finally show ?thesis by (simp add: B_def)
    qed
    have Byq: "B / 2 powi Ey = of_int (2 ^ 52)"
    proof -
      have "(2::real) powi ey = 2 powi (52 + Ey)" using eyE by simp
      also have "\<dots> = 2 powi 52 * 2 powi Ey" by (rule powi_split)
      finally show ?thesis by (simp add: B_def)
    qed
    have "x / 2 powi Ex \<le> B / 2 powi Ex" using xB by (intro divide_right_mono) simp_all
    then have "round_even (x / 2 powi Ex) \<le> 2 ^ nat (ey - Ex)"
      unfolding Bx by (rule round_even_le_int)
    then have "real_of_int (round_even (x / 2 powi Ex)) \<le> real_of_int (2 ^ nat (ey - Ex))"
      by (simp only: of_int_le_iff)
    then have "real_of_int (round_even (x / 2 powi Ex)) * 2 powi Ex
               \<le> real_of_int (2 ^ nat (ey - Ex)) * 2 powi Ex"
      by (intro mult_right_mono) simp_all
    also have "\<dots> = B / 2 powi Ex * 2 powi Ex" by (simp only: Bx)
    also have "\<dots> = B" by simp
    finally have low: "round_pos x \<le> B" by (simp only: rx)
    have "B / 2 powi Ey \<le> y / 2 powi Ey" using By by (intro divide_right_mono) simp_all
    then have "2 ^ 52 \<le> round_even (y / 2 powi Ey)"
      unfolding Byq by (rule round_even_ge_int)
    then have "real_of_int (2 ^ 52) \<le> real_of_int (round_even (y / 2 powi Ey))"
      by (simp only: of_int_le_iff)
    then have "real_of_int (2 ^ 52) * 2 powi Ey
               \<le> real_of_int (round_even (y / 2 powi Ey)) * 2 powi Ey"
      by (intro mult_right_mono) simp_all
    moreover have "real_of_int (2 ^ 52) * 2 powi Ey = B / 2 powi Ey * 2 powi Ey"
      by (simp only: Byq)
    moreover have "B / 2 powi Ey * 2 powi Ey = B" by simp
    ultimately have high: "B \<le> round_pos y" by (simp only: ry)
    from low high show ?thesis by (rule order_trans)
  qed
qed

lemma rnd64_nonneg_eq: "0 \<le> x \<Longrightarrow> rnd64 x = round_pos x"
  by (simp add: rnd64_def)

lemma rnd64_nonneg: "0 \<le> x \<Longrightarrow> 0 \<le> rnd64 x"
  by (simp add: rnd64_nonneg_eq round_pos_nonneg)

lemma rnd64_mono: "0 \<le> x \<Longrightarrow> x \<le> y \<Longrightarrow> rnd64 x \<le> rnd64 y"
  by (simp add: rnd64_nonneg_eq round_pos_mono)

lemma rnd64_idem: "0 \<le> x \<Longrightarrow> rnd64 (rnd64 x) = rnd64 x"
  by (simp add: rnd64_nonneg_eq round_pos_idem round_pos_nonneg)

lemma rnd64_abs_le: "\<bar>rnd64 x\<bar> \<le> 2 * \<bar>x\<bar>"
proof (cases "x < 0")
  case True
  then have "0 \<le> - x" by simp
  from round_pos_le_double [OF this] round_pos_nonneg [OF this] True
  show ?thesis by (simp add: rnd64_def)
next
  case False
  then have "0 \<le> x" by simp
  from round_pos_le_double [OF this] round_pos_nonneg [OF this] False
  show ?thesis by (simp add: rnd64_def)
qed

lemma fl64_Fin: "fl64 r = Fin q \<Longrightarrow> q = rnd64 r"
  by (auto simp: fl64_def Let_def split: if_splits)

lemma fl64_small: "\<bar>rnd64 r\<bar> \<le> DBL_MAX \<Longrightarrow> fl64 r = Fin (rnd64 r)"
  by (auto simp: fl64_def Let_def)

lemma fl64_not_nan: "fl64 r \<noteq> NaN"
  by (simp add: fl64_def Let_def)

lemma dadd64_not_fin: "\<not> is_fin a \<Longrightarrow> \<not> is_fin (dadd64 a y)"
  by (cases a; cases y) (simp_all add: is_fin_def dadd64_def)

lemma foldl_dadd64_not_fin:
  "\<not> is_fin acc \<Longrightarrow> \<not> is_fin (foldl (\<lambda>s v. dadd64 s (g v)) acc W)"
  by (induction W arbitrary: acc) (simp_all add: dadd64_not_fin)

lemma dmul64_self_Fin: "dmul64 d d = Fin q \<Longrightarrow> \<exists>t. d = Fin t \<and> q = rnd64 (t * t)"
  by (cases d) (auto simp: dmul64_def signed_inf_def dest: fl64_Fin split: if_splits)

lemma dadd64_Fin_Fin: "dadd64 (Fin a) y = Fin s \<Longrightarrow> \<exists>q. y = Fin q \<and> s = rnd64 (a + q)"
  by (cases y) (auto simp: dadd64_def dest: fl64_Fin)

lemma foldl_squares64_Fin:
  assumes "foldl (\<lambda>s v. dadd64 s (dmul64 (dsub64 v avg) (dsub64 v avg))) (Fin a) W = Fin S"
    and "0 \<le> a" and "rnd64 a = a"
  shows "a \<le> S \<and> (\<forall>v\<in>set W. \<exists>t. dsub64 v avg = Fin t \<and> rnd64 (t * t) \<le> S)"
  using assms
proof (induction W arbitrary: a)
  case Nil
  then show ?case by simp
next
  case (Cons v W)
  let ?f = "\<lambda>s v. dadd64 s (dmul64 (dsub64 v avg) (dsub64 v avg))"
  let ?acc = "dadd64 (Fin a) (dmul64 (dsub64 v avg) (dsub64 v avg))"
  from Cons.prems(1) have run: "foldl ?f ?acc W = Fin S" by simp
  have "is_fin ?acc"
  proof (rule ccontr)
    assume "\<not> is_fin ?acc"
    from foldl_dadd64_not_fin [OF this, of "\<lambda>v. dmul64 (dsub64 v avg) (dsub64 v avg)" W] run
    show False by (simp add: is_fin_def)
  qed
  then obtain a' where a': "?acc = Fin a'" by (cases ?acc) (simp_all add: is_fin_def)
  from dadd64_Fin_Fin [OF a'] obtain q where
    q: "dmul64 (dsub64 v avg) (dsub64 v avg) = Fin q" "a' = rnd64 (a + q)"
    by blast
  from dmul64_self_Fin [OF q(1)] obtain t where t: "dsub64 v avg = Fin t" "q = rnd64 (t * t)"
    by blast
  have q0: "0 \<le> q" unfolding t(2) by (rule rnd64_nonneg) simp
  have qq: "rnd64 q = q" unfolding t(2) by (rule rnd64_idem) simp
  have aq: "0 \<le> a + q" using Cons.prems(2) q0 by simp
  have a'0: "0 \<le> a'" unfolding q(2) using aq by (rule rnd64_nonneg)
  have a'r: "rnd64 a' = a'" unfolding q(2) using aq by (rule rnd64_idem)
  have "rnd64 a \<le> rnd64 (a + q)" using Cons.prems(2) q0 by (intro rnd64_mono) simp_all
  then have aa': "a \<le> a'" using Cons.prems(3) q(2) by simp
  have "rnd64 q \<le> rnd64 (a + q)" using Cons.prems(2) q0 by (intro rnd64_mono) simp_all
  then have qa': "q \<le> a'" using qq q(2) by simp
  from Cons.IH [OF _ a'0 a'r] run a'
  have IH: "a' \<le> S" "\<forall>v\<in>set W. \<exists>t. dsub64 v avg = Fin t \<and> rnd64 (t * t) \<le> S" by simp_all
  from IH(1) aa' have "a \<le> S" by simp
  moreover from IH(1) qa' t(2) have "rnd64 (t * t) \<le> S" by simp
  ultimately show ?case using IH(2) t(1) by auto
qed

lemma dsqrt64_Fin: "dsqrt64 x = Fin s \<Longrightarrow> \<exists>u. x = Fin u \<and> 0 \<le> u \<and> s = rnd64 (sqrt u)"
  by (cases x) (auto simp: dsqrt64_def dest: fl64_Fin split: if_splits)

lemma ddiv64_pos_Fin:
  "ddiv64 x (Fin k) = Fin u \<Longrightarrow> 0 < k \<Longrightarrow> \<exists>S. x = Fin S \<and> u = rnd64 (S / k)"
  by (cases x) (auto simp: ddiv64_def signed_inf_def dest: fl64_Fin split: if_splits)

lemma rnd64_one: "rnd64 1 = 1"
  using round_pos_exact [of 1 0] by (simp add: rnd64_def)

lemma rnd64_2_64: "rnd64 (2 ^ 64) = 2 ^ 64"
  using round_pos_exact [of 1 64] by (simp add: rnd64_def)

lemma of_size64_bounds:
  assumes "1 \<le> n" "n < 2 ^ 64"
  shows "\<exists>k. of_size64 n = Fin k \<and> 1 \<le> k \<and> k \<le> 2 ^ 64"
proof -
  have n1: "1 \<le> real n" using assms(1) by simp
  have "real n \<le> real (2 ^ 64)" using assms(2) by (intro of_nat_mono) simp
  then have n2: "real n \<le> 2 ^ 64" by simp
  have "rnd64 1 \<le> rnd64 (real n)" using n1 by (intro rnd64_mono) simp_all
  then have k1: "1 \<le> rnd64 (real n)" by (simp only: rnd64_one)
  have "rnd64 (real n) \<le> rnd64 (2 ^ 64)" using n1 n2 by (intro rnd64_mono) simp_all
  then have k2: "rnd64 (real n) \<le> 2 ^ 64" by (simp only: rnd64_2_64)
  from k1 k2 DBL_MAX_ge have "\<bar>rnd64 (real n)\<bar> \<le> DBL_MAX" by linarith
  then have "of_size64 n = Fin (rnd64 (real n))"
    unfolding of_size64_def by (rule fl64_small)
  with k1 k2 show ?thesis by blast
qed


subsection \<open>The z-score of a window with a finite positive standard deviation\<close>

text \<open>
  Every squared deviation of the window is at most the rounded sum of squares \<open>S\<close>,
  because rounding is monotone and the partial sums only grow. The standard deviation is
  \<open>\<sigma> = rnd64 (sqrt (rnd64 (S / k)))\<close> with \<open>1 \<le> k \<le> 2^64\<close>, and a positive rounded value is
  at least half of the exact one, so \<open>S \<le> 8 k \<sigma>\<^sup>2\<close>. A deviation \<open>t\<close> has \<open>t\<^sup>2 \<le> 2 S\<close>, or
  its square was rounded to zero and is below the smallest positive double, which
  \<open>rnd64 (S / k)\<close> is not. Hence \<open>|t / \<sigma>| \<le> 2^34\<close> and the quotient does not overflow.
\<close>

lemma zscore64_bounded:
  assumes sd: "standardDeviation64 W = Fin \<sigma>" and pos: "0 < \<sigma>"
    and len: "length W < 2 ^ 64" and v: "v \<in> set W"
  shows "\<exists>z. ddiv64 (dsub64 v (mean64 W)) (Fin \<sigma>) = Fin z"
proof -
  from sd have l2: "2 \<le> length W"
    by (auto simp: standardDeviation64_def split: if_splits)
  then have "1 \<le> length W - 1" by simp
  moreover have "length W - 1 < 2 ^ 64" using len by simp
  ultimately obtain k where k: "of_size64 (length W - 1) = Fin k" "1 \<le> k" "k \<le> 2 ^ 64"
    using of_size64_bounds by blast
  let ?ssd = "foldl (\<lambda>s v. dadd64 s (dmul64 (dsub64 v (mean64 W)) (dsub64 v (mean64 W)))) (Fin 0) W"
  from sd l2 k(1) have "dsqrt64 (ddiv64 ?ssd (Fin k)) = Fin \<sigma>"
    by (simp add: standardDeviation64_def Let_def)
  from dsqrt64_Fin [OF this] obtain u where
    u: "ddiv64 ?ssd (Fin k) = Fin u" "0 \<le> u" "\<sigma> = rnd64 (sqrt u)"
    by blast
  from k(2) have kpos: "0 < k" by simp
  from ddiv64_pos_Fin [OF u(1) kpos] obtain S where S: "?ssd = Fin S" "u = rnd64 (S / k)"
    by blast
  have r0: "rnd64 0 = 0" by (simp add: rnd64_def)
  from foldl_squares64_Fin [OF S(1) order_refl r0] v obtain t where
    t: "dsub64 v (mean64 W) = Fin t" "rnd64 (t * t) \<le> S" and S0: "0 \<le> S"
    by auto
  \<comment> \<open>the square root is at most twice its rounded value\<close>
  have su: "0 \<le> sqrt u" using u(2) by simp
  have sig: "\<sigma> = round_pos (sqrt u)" using u(3) su by (simp add: rnd64_nonneg_eq)
  with pos have "round_pos (sqrt u) \<noteq> 0" by simp
  from round_pos_ge_half [OF su this] sig have s2: "sqrt u \<le> 2 * \<sigma>" by simp
  have "u = (sqrt u)\<^sup>2" using u(2) by simp
  also have "\<dots> \<le> (2 * \<sigma>)\<^sup>2" using s2 su by (rule power_mono)
  finally have u4: "u \<le> 4 * \<sigma>\<^sup>2" by (simp add: power2_eq_square)
  \<comment> \<open>the quotient is not zero and at most twice its rounded value\<close>
  have une: "u \<noteq> 0" using pos sig by auto
  have Sk: "0 \<le> S / k" using S0 kpos by simp
  have uS: "u = round_pos (S / k)" using S(2) Sk by (simp add: rnd64_nonneg_eq)
  with une have "round_pos (S / k) \<noteq> 0" by simp
  from round_pos_ge_half [OF Sk this] uS have "S / k \<le> 2 * u" by simp
  then have S2: "S \<le> 2 * u * k" using kpos by (simp add: divide_simps)
  have upos: "0 < round_pos (S / k)" using une u(2) uS by simp
  from round_pos_min [OF this] uS have umin: "2 powi (- 1074) \<le> u" by simp
  \<comment> \<open>the deviation is bounded by the standard deviation\<close>
  have tt: "0 \<le> t * t" by simp
  have q: "rnd64 (t * t) = round_pos (t * t)" using tt by (rule rnd64_nonneg_eq)
  have "t * t \<le> 16 * k * \<sigma>\<^sup>2"
  proof (cases "round_pos (t * t) = 0")
    case True
    from round_pos_zero [OF tt True] have "t * t \<le> 2 powi (- 1075)" .
    also have "(2::real) powi (- 1075) \<le> 2 powi (- 1074)"
      by (rule power_int_increasing) simp_all
    also note umin
    also note u4
    also have "4 * \<sigma>\<^sup>2 \<le> 16 * k * \<sigma>\<^sup>2"
      using k(2) by (intro mult_right_mono) simp_all
    finally show ?thesis .
  next
    case False
    from round_pos_ge_half [OF tt False] have "t * t \<le> 2 * round_pos (t * t)" .
    also have "\<dots> \<le> 2 * S" using t(2) q by simp
    also have "\<dots> \<le> 2 * (2 * u * k)" using S2 by (simp add: mult.commute mult.left_commute)
    also have "\<dots> = 4 * k * u" by simp
    also have "\<dots> \<le> 4 * k * (4 * \<sigma>\<^sup>2)"
      using u4 kpos by (intro mult_left_mono) simp_all
    also have "\<dots> = 16 * k * \<sigma>\<^sup>2" by simp
    finally show ?thesis .
  qed
  also have "16 * k * \<sigma>\<^sup>2 \<le> 16 * 2 ^ 64 * \<sigma>\<^sup>2"
    using k(3) by (intro mult_right_mono mult_left_mono) simp_all
  also have "\<dots> = (2 ^ 34 * \<sigma>)\<^sup>2" by (simp add: power2_eq_square)
  finally have "t\<^sup>2 \<le> (2 ^ 34 * \<sigma>)\<^sup>2" by (simp add: power2_eq_square)
  then have "\<bar>t\<bar> \<le> \<bar>2 ^ 34 * \<sigma>\<bar>" by (simp only: abs_le_square_iff)
  then have "\<bar>t\<bar> \<le> 2 ^ 34 * \<sigma>" using pos by simp
  then have "\<bar>t / \<sigma>\<bar> \<le> 2 ^ 34" using pos by (simp add: divide_simps)
  with rnd64_abs_le [of "t / \<sigma>"] have "\<bar>rnd64 (t / \<sigma>)\<bar> \<le> 2 ^ 64" by simp
  with DBL_MAX_ge have "\<bar>rnd64 (t / \<sigma>)\<bar> \<le> DBL_MAX" by linarith
  then have "fl64 (t / \<sigma>) = Fin (rnd64 (t / \<sigma>))" by (rule fl64_small)
  with t(1) pos show ?thesis by (simp add: ddiv64_def)
qed


lemma rollingStdDev64_insufficient:
  "i < length data \<Longrightarrow> insufficient_history (length data) w i \<Longrightarrow>
   rollingStdDev64 data w ! i = NaN"
  by (auto simp: rollingStdDev64_def insufficient_history_def)

lemma rollingStdDev64_sufficient:
  "i < length data \<Longrightarrow> \<not> insufficient_history (length data) w i \<Longrightarrow>
   rollingStdDev64 data w ! i = standardDeviation64 (window_data data w i)"
  by (auto simp: rollingStdDev64_def insufficient_history_def)

lemma length_window_data:
  "i < length data \<Longrightarrow> \<not> insufficient_history (length data) w i \<Longrightarrow>
   length (window_data data w i) = w"
  by (auto simp: window_data_def insufficient_history_def)

lemma last_in_window:
  assumes "i < length data" "\<not> insufficient_history (length data) w i"
  shows "data ! i \<in> set (window_data data w i)"
proof -
  from assms have w: "0 < w" "w - 1 \<le> i" "w \<le> length data"
    by (auto simp: insufficient_history_def)
  have "window_data data w i ! (w - 1) = data ! i"
    using w assms(1) by (simp add: window_data_def)
  moreover have "w - 1 < length (window_data data w i)"
    using length_window_data [OF assms] w by simp
  ultimately show ?thesis by (metis nth_mem)
qed

lemma rollingMean64_sufficient:
  assumes "i < length data" "\<not> insufficient_history (length data) w i"
  shows "rollingMean64 data w ! i = mean64 (window_data data w i)"
proof -
  from assms have w: "0 < w" by (auto simp: insufficient_history_def)
  with length_window_data [OF assms] have ne: "window_data data w i \<noteq> []" by auto
  from assms have "rollingMean64 data w ! i
      = ddiv64 (foldl dadd64 (Fin 0) (window_data data w i)) (of_size64 w)"
    by (auto simp: rollingMean64_def insufficient_history_def)
  with ne length_window_data [OF assms] show ?thesis
    by (simp add: mean64_def)
qed

lemma rollingZScore64_nth:
  assumes "i < length data"
  shows "rollingZScore64 data w ! i =
     (if dgt (rollingStdDev64 data w ! i) (Fin 0)
      then ddiv64 (dsub64 (data ! i) (rollingMean64 data w ! i)) (rollingStdDev64 data w ! i)
      else NaN)"
proof (cases "insufficient_history (length data) w i")
  case True
  from rollingStdDev64_insufficient [OF assms True]
  have "\<not> dgt (rollingStdDev64 data w ! i) (Fin 0)" by (simp add: dgt_def dlt_def)
  moreover from True assms have "rollingZScore64 data w ! i = NaN"
    by (auto simp: rollingZScore64_def insufficient_history_def Let_def)
  ultimately show ?thesis by simp
next
  case False
  with assms show ?thesis
    by (auto simp: rollingZScore64_def insufficient_history_def Let_def)
qed

lemma ddiv64_by_PInf: "\<not> isinf (ddiv64 x PInf)"
  by (cases x) (simp_all add: ddiv64_def isinf_def)

text \<open>
  C5, as the code has it, with every operation rounded to the nearest double. For a
  series of fewer than \<open>2^64\<close> observations no entry of \<^verbatim>\<open>rollingZScore\<close> is an infinity.
  Where the rolling standard deviation is not \<open>+\<infinity>\<close>, the entry is NaN exactly when the
  rolling standard deviation is not strictly positive or the history is insufficient.
  Every entry is the quotient by the rolling standard deviation when that is strictly
  positive and NaN otherwise, so the division never has a zero or NaN denominator.
\<close>

theorem rollingZScore_entries:
  assumes "length data < 2 ^ 64" and "i < length data"
  shows "\<not> isinf (rollingZScore64 data w ! i)
       \<and> (rollingStdDev64 data w ! i \<noteq> PInf \<longrightarrow>
            (isnan (rollingZScore64 data w ! i) \<longleftrightarrow>
               \<not> dgt (rollingStdDev64 data w ! i) (Fin 0)
               \<or> insufficient_history (length data) w i))
       \<and> rollingZScore64 data w ! i =
            (if dgt (rollingStdDev64 data w ! i) (Fin 0)
             then ddiv64 (dsub64 (data ! i) (rollingMean64 data w ! i))
                    (rollingStdDev64 data w ! i)
             else NaN)"
proof -
  let ?s = "rollingStdDev64 data w ! i"
  let ?z = "rollingZScore64 data w ! i"
  note z = rollingZScore64_nth [OF assms(2), of w]
  have ins: "insufficient_history (length data) w i \<Longrightarrow> \<not> dgt ?s (Fin 0)"
    using rollingStdDev64_insufficient [OF assms(2)] by (simp add: dgt_def dlt_def)
  have fin: "\<exists>r. ?z = Fin r" if s: "?s = Fin \<sigma>" and pos: "0 < \<sigma>" for \<sigma>
  proof -
    have suff: "\<not> insufficient_history (length data) w i"
      using ins s pos by (auto simp: dgt_def dlt_def)
    let ?W = "window_data data w i"
    have sd: "standardDeviation64 ?W = Fin \<sigma>"
      using rollingStdDev64_sufficient [OF assms(2) suff] s by simp
    have "length ?W \<le> length data" by (simp add: window_data_def)
    with assms(1) have len: "length ?W < 2 ^ 64" by simp
    from zscore64_bounded [OF sd pos len last_in_window [OF assms(2) suff]]
    obtain r where "ddiv64 (dsub64 (data ! i) (mean64 ?W)) (Fin \<sigma>) = Fin r" by blast
    with z s pos rollingMean64_sufficient [OF assms(2) suff] show ?thesis
      by (simp add: dgt_def dlt_def)
  qed
  have noinf: "\<not> isinf ?z"
  proof (cases ?s)
    case (Fin \<sigma>)
    show ?thesis
    proof (cases "0 < \<sigma>")
      case True
      from fin [OF Fin True] show ?thesis by (auto simp: isinf_def)
    next
      case False
      with Fin z show ?thesis by (simp add: dgt_def dlt_def isinf_def)
    qed
  next
    case PInf
    with z show ?thesis by (simp add: dgt_def dlt_def ddiv64_by_PInf)
  next
    case NInf
    with z show ?thesis by (simp add: dgt_def dlt_def isinf_def)
  next
    case NaN
    with z show ?thesis by (simp add: dgt_def dlt_def isinf_def)
  qed
  have nan: "isnan ?z \<longleftrightarrow> \<not> dgt ?s (Fin 0) \<or> insufficient_history (length data) w i"
    if "?s \<noteq> PInf"
  proof (cases "dgt ?s (Fin 0)")
    case True
    with that obtain \<sigma> where s: "?s = Fin \<sigma>" "0 < \<sigma>"
      by (cases ?s) (auto simp: dgt_def dlt_def)
    from fin [OF this] have "\<not> isnan ?z" by (auto simp: isnan_def)
    with True ins show ?thesis by blast
  next
    case False
    with z show ?thesis by (simp add: isnan_def)
  qed
  from noinf nan z show ?thesis by blast
qed

subsection \<open>Evaluating the rounded operations\<close>

lemma DBL_MAX_ge_53: "2 ^ 53 \<le> DBL_MAX"
  using DBL_MAX_ge by simp

lemma rnd64_0 [simp]: "rnd64 0 = 0"
  by (simp add: rnd64_def)

lemma rnd64_numeral:
  assumes "(numeral w :: real) < 2 ^ 53"
  shows "rnd64 (numeral w) = numeral w"
proof -
  have "real_of_int (numeral w) < real_of_int (2 ^ 53)" using assms by simp
  then have "(numeral w :: int) < 2 ^ 53" by (simp only: of_int_less_iff)
  then have "round_pos (of_int (numeral w) * 2 powi 0) = of_int (numeral w) * 2 powi 0"
    by (intro round_pos_exact) simp_all
  then show ?thesis by (simp add: rnd64_def)
qed

lemma rnd64_neg_numeral:
  assumes "(numeral w :: real) < 2 ^ 53"
  shows "rnd64 (- numeral w) = - numeral w"
  using rnd64_numeral [OF assms] by (simp add: rnd64_def)

lemma fl64_0: "fl64 0 = Fin 0"
  using DBL_MAX_ge by (simp add: fl64_def)

lemma fl64_1: "fl64 1 = Fin 1"
  using DBL_MAX_ge by (simp add: fl64_def rnd64_one)

lemma fl64_numeral:
  assumes "(numeral w :: real) < 2 ^ 53"
  shows "fl64 (numeral w) = Fin (numeral w)"
proof -
  have "(0::real) \<le> numeral w" by simp
  with assms DBL_MAX_ge_53 have "\<bar>numeral w :: real\<bar> \<le> DBL_MAX" by linarith
  then have "\<bar>rnd64 (numeral w)\<bar> \<le> DBL_MAX" by (simp only: rnd64_numeral [OF assms])
  then have "fl64 (numeral w) = Fin (rnd64 (numeral w))" by (rule fl64_small)
  then show ?thesis by (simp only: rnd64_numeral [OF assms])
qed

lemma fl64_neg_numeral:
  assumes "(numeral w :: real) < 2 ^ 53"
  shows "fl64 (- numeral w) = Fin (- numeral w)"
proof -
  have "(0::real) \<le> numeral w" by simp
  with assms DBL_MAX_ge_53 have "\<bar>- numeral w :: real\<bar> \<le> DBL_MAX" by linarith
  then have "\<bar>rnd64 (- numeral w)\<bar> \<le> DBL_MAX" by (simp only: rnd64_neg_numeral [OF assms])
  then have "fl64 (- numeral w) = Fin (rnd64 (- numeral w))" by (rule fl64_small)
  then show ?thesis by (simp only: rnd64_neg_numeral [OF assms])
qed

lemma fl64_neg_1: "fl64 (- 1) = Fin (- 1)"
  using DBL_MAX_ge by (simp add: fl64_def rnd64_def rnd64_one [unfolded rnd64_def, simplified])

lemmas double64_ops =
  dadd64_def dsub64_def dmul64_def ddiv64_def dneg_def dsqrt64_def dlt_def dgt_def
  isnan_def isinf_def of_size64_def signed_inf_def fl64_0 fl64_1 fl64_neg_1 fl64_numeral
  fl64_neg_numeral

lemmas rolling64_defs =
  rollingZScore64_def rollingMean64_def rollingStdDev64_def standardDeviation64_def
  mean64_def window_data_def Let_def

lemma round_pos_eval:
  assumes x: "x = q * 2 powi (e - 52)" and q1: "2 ^ 52 \<le> q" and q2: "q < 2 ^ 53"
    and e: "- 1022 \<le> e"
  shows "round_pos x = of_int (round_even q) * 2 powi (e - 52)"
proof -
  have p: "0 < (2::real) powi (e - 52)" by simp
  have "(2::real) powi e = 2 powi (52 + (e - 52))" by simp
  also have "\<dots> = 2 powi 52 * 2 powi (e - 52)" by (rule powi_split)
  also have "(2::real) powi 52 = 2 ^ 52" by (simp add: power_int_def)
  finally have lo: "(2::real) powi e = 2 ^ 52 * 2 powi (e - 52)" .
  have "e + 1 = 53 + (e - 52)" by simp
  then have "(2::real) powi (e + 1) = 2 powi (53 + (e - 52))" by (rule arg_cong)
  also have "\<dots> = 2 powi 53 * 2 powi (e - 52)" by (rule powi_split)
  also have "(2::real) powi 53 = 2 ^ 53" by (simp add: power_int_def)
  finally have hi: "(2::real) powi (e + 1) = 2 ^ 53 * 2 powi (e - 52)" .
  have "2 ^ 52 * 2 powi (e - 52) \<le> q * 2 powi (e - 52)"
    using q1 by (intro mult_right_mono) simp_all
  then have l: "2 powi e \<le> x" by (simp only: lo x)
  have "q * 2 powi (e - 52) < 2 ^ 53 * 2 powi (e - 52)"
    using q2 p by (intro mult_strict_right_mono)
  then have h: "x < 2 powi (e + 1)" by (simp only: hi x)
  from l h have fl: "\<lfloor>log 2 x\<rfloor> = e" by (rule floor_log2_unique)
  have "max e (- 1022) = e" using e by (rule max_absorb1)
  then have u: "ulp64 x = 2 powi (e - 52)" by (simp only: ulp64_def fl)
  have "0 < q" using q1 by (rule less_le_trans [rotated]) simp
  with p have x0: "x \<noteq> 0" unfolding x by simp
  have "x / ulp64 x = x / 2 powi (e - 52)" by (simp only: u)
  also have "\<dots> = q" unfolding x by simp
  finally have "x / ulp64 x = q" .
  with x0 u show ?thesis by (simp add: round_pos_def)
qed

lemma fl64_eval:
  assumes x: "x = q * 2 powi (e - 52)" and q1: "2 ^ 52 \<le> q" and q2: "q < 2 ^ 53"
    and e: "- 1022 \<le> e" "e \<le> 0"
  shows "fl64 x = Fin (of_int (round_even q) * 2 powi (e - 52))"
proof -
  have p: "0 < (2::real) powi (e - 52)" by simp
  have "0 < q" using q1 by (rule less_le_trans [rotated]) simp
  with p have x0: "0 \<le> x" unfolding x by simp
  have r: "rnd64 x = of_int (round_even q) * 2 powi (e - 52)"
    using round_pos_eval [OF x q1 q2 e(1)] x0 by (simp add: rnd64_nonneg_eq)
  have "q \<le> of_int (2 ^ 53)" using q2 by simp
  then have "round_even q \<le> 2 ^ 53" by (rule round_even_le_int)
  then have "real_of_int (round_even q) \<le> real_of_int (2 ^ 53)" by (simp only: of_int_le_iff)
  then have m: "real_of_int (round_even q) \<le> 2 ^ 53" by simp
  have "(2::real) powi (e - 52) \<le> 2 powi 0"
    using e(2) by (intro power_int_increasing) simp_all
  then have p1: "(2::real) powi (e - 52) \<le> 1" by simp
  have "real_of_int (round_even q) * 2 powi (e - 52) \<le> 2 ^ 53 * 1"
    using m p1 p by (intro mult_mono) simp_all
  with DBL_MAX_ge_53 have "rnd64 x \<le> DBL_MAX" unfolding r by linarith
  moreover have "0 \<le> rnd64 x" using x0 by (rule rnd64_nonneg)
  ultimately have "\<bar>rnd64 x\<bar> \<le> DBL_MAX" by simp
  then have "fl64 x = Fin (rnd64 x)" by (rule fl64_small)
  then show ?thesis by (simp only: r)
qed


lemma rnd64_minus: "rnd64 (- x) = - rnd64 x"
  by (cases "x < 0"; cases "x = 0") (simp_all add: rnd64_def)

lemma DBL_MAX_pos: "0 < DBL_MAX"
proof -
  have "(0::real) < 2 ^ 64" by simp
  then show ?thesis using DBL_MAX_ge by (rule less_le_trans)
qed

lemma fl64_minus: "fl64 (- x) = dneg (fl64 x)"
  using DBL_MAX_pos by (auto simp: fl64_def Let_def rnd64_minus dneg_def)

lemma round_even_numeral: "round_even (numeral w) = numeral w"
  using round_even_of_int [of "numeral w"] by simp

text \<open>
  A window on which the rounding decides. \<open>tenth\<close> is the double nearest to 0.1. The sum
  of three of them rounds up (a tie, to the even significand), so their mean is the next
  double above \<open>tenth\<close>, every deviation is \<open>-2^(-56)\<close>, and the standard deviation is not
  0 but about \<open>1.7 \<times> 10^(-17)\<close>: the entry is about \<open>-0.816\<close>, where exact arithmetic
  has a standard deviation of 0 and the entry NaN.
\<close>

lemma tenth_sum:
  "fl64 (7205759403792794 / 2 ^ 56) = Fin (7205759403792794 / 2 ^ 56)"
  "fl64 (7205759403792794 / 2 ^ 56 + 7205759403792794 / 2 ^ 56) = Fin (7205759403792794 / 2 ^ 55)"
  "fl64 (7205759403792794 / 2 ^ 55 + 7205759403792794 / 2 ^ 56) = Fin (5404319552844596 / 2 ^ 54)"
proof -
  show "fl64 (7205759403792794 / 2 ^ 56) = Fin (7205759403792794 / 2 ^ 56)"
    using fl64_eval [of "7205759403792794 / 2 ^ 56" 7205759403792794 "- 4"]
    by (simp add: round_even_numeral)
  show "fl64 (7205759403792794 / 2 ^ 56 + 7205759403792794 / 2 ^ 56) = Fin (7205759403792794 / 2 ^ 55)"
    using fl64_eval [of "7205759403792794 / 2 ^ 56 + 7205759403792794 / 2 ^ 56" 7205759403792794 "- 3"]
    by (simp add: round_even_numeral)
  show "fl64 (7205759403792794 / 2 ^ 55 + 7205759403792794 / 2 ^ 56) = Fin (5404319552844596 / 2 ^ 54)"
    using fl64_eval [of "7205759403792794 / 2 ^ 55 + 7205759403792794 / 2 ^ 56" "10808639105689191 / 2" "- 2"]
    by (simp add: round_even_def)
qed


lemma tenth_mean:
  "fl64 (5404319552844596 / 2 ^ 54 / 3) = Fin (7205759403792795 / 2 ^ 56)"
  using fl64_eval [of "5404319552844596 / 2 ^ 54 / 3" "21617278211378384 / 3" "- 4"]
  by (simp add: round_even_def)

lemma tenth_diff:
  "fl64 (7205759403792794 / 2 ^ 56 + - (7205759403792795 / 2 ^ 56)) = Fin (- (1 / 2 ^ 56))"
proof -
  have "fl64 (1 / 2 ^ 56) = Fin (1 / 2 ^ 56)"
    using fl64_eval [of "1 / 2 ^ 56" "2 ^ 52" "- 56"] round_even_of_int [of "2 ^ 52"]
    by simp
  then have "fl64 (- (1 / 2 ^ 56)) = Fin (- (1 / 2 ^ 56))"
    by (simp only: fl64_minus dneg_def double.case)
  moreover have "(7205759403792794 / 2 ^ 56 + - (7205759403792795 / 2 ^ 56) :: real) = - (1 / 2 ^ 56)"
    by simp
  ultimately show ?thesis by (simp only:)
qed

lemma tenth_squares:
  "fl64 (- (1 / 2 ^ 56) * - (1 / 2 ^ 56)) = Fin (1 / 2 ^ 112)"
  "fl64 (1 / 2 ^ 112) = Fin (1 / 2 ^ 112)"
  "fl64 (1 / 2 ^ 112 + 1 / 2 ^ 112) = Fin (1 / 2 ^ 111)"
  "fl64 (1 / 2 ^ 111 + 1 / 2 ^ 112) = Fin (3 / 2 ^ 112)"
  "fl64 (3 / 2 ^ 112 / 2) = Fin (3 / 2 ^ 113)"
proof -
  show "fl64 (- (1 / 2 ^ 56) * - (1 / 2 ^ 56)) = Fin (1 / 2 ^ 112)"
    using fl64_eval [of "- (1 / 2 ^ 56) * - (1 / 2 ^ 56)" "2 ^ 52" "- 112"]
      round_even_of_int [of "2 ^ 52"]
    by simp
  show "fl64 (1 / 2 ^ 112) = Fin (1 / 2 ^ 112)"
    using fl64_eval [of "1 / 2 ^ 112" "2 ^ 52" "- 112"] round_even_of_int [of "2 ^ 52"]
    by simp
  show "fl64 (1 / 2 ^ 112 + 1 / 2 ^ 112) = Fin (1 / 2 ^ 111)"
    using fl64_eval [of "1 / 2 ^ 112 + 1 / 2 ^ 112" "2 ^ 52" "- 111"]
      round_even_of_int [of "2 ^ 52"]
    by simp
  show "fl64 (1 / 2 ^ 111 + 1 / 2 ^ 112) = Fin (3 / 2 ^ 112)"
    using fl64_eval [of "1 / 2 ^ 111 + 1 / 2 ^ 112" "3 * 2 ^ 51" "- 111"]
      round_even_of_int [of "3 * 2 ^ 51"]
    by simp
  show "fl64 (3 / 2 ^ 112 / 2) = Fin (3 / 2 ^ 113)"
    using fl64_eval [of "3 / 2 ^ 112 / 2" "3 * 2 ^ 51" "- 112"]
      round_even_of_int [of "3 * 2 ^ 51"]
    by simp
qed


lemma round_even_down: "of_int n \<le> r \<Longrightarrow> r < of_int n + 1 / 2 \<Longrightarrow> round_even r = n"
proof -
  assume a: "of_int n \<le> r" "r < of_int n + 1 / 2"
  then have "\<lfloor>r\<rfloor> = n" by (intro floor_unique) simp_all
  with a show ?thesis by (simp add: round_even_def Let_def)
qed

lemma tenth_sqrt:
  "fl64 (sqrt (3 / 2 ^ 113)) = Fin (5515760546423086 / 2 ^ 108)"
proof -
  define q :: real where "q = sqrt (6 * 2 ^ 102)"
  have "sqrt (3 / 2 ^ 113 :: real) = sqrt (6 * 2 ^ 102 / (2 ^ 108)\<^sup>2)" by simp
  also have "\<dots> = sqrt (6 * 2 ^ 102) / 2 ^ 108"
    by (simp only: real_sqrt_divide real_sqrt_abs) simp
  finally have x: "sqrt (3 / 2 ^ 113) = q * 2 powi (- 56 - 52)" by (simp add: q_def)
  have q1: "2 ^ 52 \<le> q" unfolding q_def by (rule real_le_rsqrt) simp
  have q2: "q < 2 ^ 53" unfolding q_def by (rule real_less_lsqrt) simp_all
  have lo: "of_int 5515760546423086 \<le> q" unfolding q_def by (rule real_le_rsqrt) simp
  have hi: "q < of_int 5515760546423086 + 1 / 2"
    unfolding q_def by (rule real_less_lsqrt) (simp_all add: power2_eq_square)
  from lo hi have r: "round_even q = 5515760546423086" by (rule round_even_down)
  from fl64_eval [OF x q1 q2] show ?thesis by (simp add: r)
qed

lemma tenth_quotient:
  "fl64 (- (1 / 2 ^ 56) / (5515760546423086 / 2 ^ 108)) = Fin (- (7354347395230783 / 2 ^ 53))"
proof -
  have "fl64 (2 ^ 52 / 5515760546423086) = Fin (7354347395230783 / 2 ^ 53)"
    using fl64_eval [of "2 ^ 52 / 5515760546423086"
        "40564819207303340847894502572032 / 5515760546423086" "- 1"]
    by (simp add: round_even_def)
  then have "fl64 (- (2 ^ 52 / 5515760546423086)) = Fin (- (7354347395230783 / 2 ^ 53))"
    by (simp only: fl64_minus dneg_def double.case)
  moreover have "(- (1 / 2 ^ 56) / (5515760546423086 / 2 ^ 108) :: real)
      = - (2 ^ 52 / 5515760546423086)"
    by simp
  ultimately show ?thesis by (simp only:)
qed

lemma window3_eval:
  assumes "fl64 c = Fin c" "fl64 (c + c) = Fin c2" "fl64 (c2 + c) = Fin s"
    and "fl64 (s / 3) = Fin mu" "fl64 (c + - mu) = Fin t"
    and "fl64 (t * t) = Fin p" "fl64 p = Fin p" "fl64 (p + p) = Fin p2"
    and "fl64 (p2 + p) = Fin p3" "fl64 (p3 / 2) = Fin u" "0 \<le> u"
    and "fl64 (sqrt u) = Fin \<sigma>" "0 < \<sigma>" "fl64 (t / \<sigma>) = Fin z"
  shows "rollingStdDev64 [Fin c, Fin c, Fin c] 3 ! 2 = Fin \<sigma>"
    and "rollingZScore64 [Fin c, Fin c, Fin c] 3 ! 2 = Fin z"
  using assms by (simp_all add: rolling64_defs double64_ops)

lemma tenth_nearest: "fl64 (1 / 10) = tenth"
  using fl64_eval [of "1 / 10" "72057594037927936 / 10" "- 4"]
  by (simp add: round_even_def tenth_def)

lemma tenth_zscore64:
  "rollingStdDev64 [tenth, tenth, tenth] 3 ! 2 = Fin (5515760546423086 / 2 ^ 108)"
  "rollingZScore64 [tenth, tenth, tenth] 3 ! 2 = Fin (- (7354347395230783 / 2 ^ 53))"
proof -
  have u: "(0::real) \<le> 3 / 2 ^ 113" by simp
  have s: "(0::real) < 5515760546423086 / 2 ^ 108" by simp
  note run = tenth_sum tenth_mean tenth_diff tenth_squares u tenth_sqrt s tenth_quotient
  show "rollingStdDev64 [tenth, tenth, tenth] 3 ! 2 = Fin (5515760546423086 / 2 ^ 108)"
    unfolding tenth_def by (rule window3_eval(1) [OF run])
  show "rollingZScore64 [tenth, tenth, tenth] 3 ! 2 = Fin (- (7354347395230783 / 2 ^ 53))"
    unfolding tenth_def by (rule window3_eval(2) [OF run])
qed

lemma tenth_exact_arithmetic:
  "rollingStdDev [tenth, tenth, tenth] 3 ! 2 = Fin 0"
  "isnan (rollingZScore [tenth, tenth, tenth] 3 ! 2)"
  by (simp_all add: tenth_def rolling_defs double_ops)

theorem rollingZScore_entries_witness:
  "length [tenth, tenth, tenth] < 2 ^ 64
   \<and> 2 < length [tenth, tenth, tenth]
   \<and> rollingStdDev64 [tenth, tenth, tenth] 3 ! 2 = Fin (5515760546423086 / 2 ^ 108)
   \<and> rollingStdDev64 [tenth, tenth, tenth] 3 ! 2 \<noteq> PInf
   \<and> dgt (rollingStdDev64 [tenth, tenth, tenth] 3 ! 2) (Fin 0)
   \<and> \<not> insufficient_history (length [tenth, tenth, tenth]) 3 2
   \<and> \<not> isinf (rollingZScore64 [tenth, tenth, tenth] 3 ! 2)
   \<and> \<not> isnan (rollingZScore64 [tenth, tenth, tenth] 3 ! 2)
   \<and> rollingZScore64 [tenth, tenth, tenth] 3 ! 2 = Fin (- (7354347395230783 / 2 ^ 53))"
proof -
  let ?d = "[tenth, tenth, tenth]"
  have h1: "length ?d < 2 ^ 64" by simp
  have h2: "2 < length ?d" by simp
  have s: "rollingStdDev64 ?d 3 ! 2 = Fin (5515760546423086 / 2 ^ 108)"
    by (rule tenth_zscore64(1))
  have h3: "rollingStdDev64 ?d 3 ! 2 \<noteq> PInf" by (simp only: s) simp
  from rollingZScore_entries [OF h1 h2, of 3]
  have a: "\<not> isinf (rollingZScore64 ?d 3 ! 2)" by (rule conjunct1)
  from rollingZScore_entries [OF h1 h2, of 3] h3
  have b: "isnan (rollingZScore64 ?d 3 ! 2) \<longleftrightarrow>
             \<not> dgt (rollingStdDev64 ?d 3 ! 2) (Fin 0) \<or> insufficient_history (length ?d) 3 2"
    by blast
  have c: "dgt (rollingStdDev64 ?d 3 ! 2) (Fin 0)"
    by (simp only: s) (simp add: dgt_def dlt_def)
  have d: "\<not> insufficient_history (length ?d) 3 2"
    by (simp add: insufficient_history_def)
  from b c d have e: "\<not> isnan (rollingZScore64 ?d 3 ! 2)" by blast
  have z: "rollingZScore64 ?d 3 ! 2 = Fin (- (7354347395230783 / 2 ^ 53))"
    by (rule tenth_zscore64(2))
  from h1 h2 s h3 a c d e z show ?thesis by blast
qed

lemma rnd64_power_of_two:
  assumes "- 1074 \<le> k"
  shows "rnd64 (2 powi k) = 2 powi k"
proof -
  have "round_pos (of_int 1 * 2 powi k) = of_int 1 * 2 powi k"
    using assms by (intro round_pos_exact) simp_all
  moreover have "\<not> (2::real) powi k < 0"
    using zero_less_power_int [of "2::real" k] by linarith
  ultimately show ?thesis by (simp add: rnd64_def)
qed

lemma overflowing_pair:
  assumes "fl64 a = Fin a" and "fl64 (a + a) = PInf"
  shows "isnan (rollingZScore64 [Fin a, Fin a] 2 ! 1)
       \<and> dgt (rollingStdDev64 [Fin a, Fin a] 2 ! 1) (Fin 0)"
  using assms by (simp add: rolling64_defs double64_ops)

lemma fl64_2_1023: "fl64 (2 ^ 1023) = Fin (2 ^ 1023)"
proof -
  have r: "rnd64 (2 ^ 1023) = 2 ^ 1023"
    using rnd64_power_of_two [of 1023] by simp
  have "\<bar>(2::real) ^ 1023\<bar> \<le> DBL_MAX" by (simp add: DBL_MAX_def)
  then have "\<bar>rnd64 (2 ^ 1023)\<bar> \<le> DBL_MAX" by (simp only: r)
  then have "fl64 (2 ^ 1023) = Fin (rnd64 (2 ^ 1023))" by (rule fl64_small)
  then show ?thesis by (simp only: r)
qed

lemma fl64_2_1024: "fl64 (2 ^ 1023 + 2 ^ 1023) = PInf"
proof -
  have e: "(2::real) ^ 1023 + 2 ^ 1023 = 2 ^ 1024" by simp
  have r: "rnd64 (2 ^ 1024) = 2 ^ 1024"
    using rnd64_power_of_two [of 1024] by simp
  have "DBL_MAX < 2 ^ 1024" by (simp add: DBL_MAX_def)
  then have "DBL_MAX < rnd64 (2 ^ 1023 + 2 ^ 1023)" by (simp only: e r)
  then show ?thesis by (simp only: fl64_def Let_def if_True)
qed

subsection \<open>Overflow is decided after rounding\<close>

text \<open>
  The largest double and 1, with window 2. The sum \<open>DBL_MAX + 1\<close> rounds back to \<open>DBL_MAX\<close>
  and does not overflow, so the rolling mean is finite. The squared deviations overflow,
  the standard deviation is \<open>+\<infinity>\<close>, and the entry is \<open>(1 - DBL_MAX / 2) / \<infinity>\<close>: a zero
  (\<^verbatim>\<open>-0.0\<close> in the program).
\<close>

lemma round_even_up: "of_int n - 1 / 2 < r \<Longrightarrow> r \<le> of_int n \<Longrightarrow> round_even r = n"
proof (cases "r = of_int n")
  case True
  then show ?thesis by simp
next
  case False
  assume a: "of_int n - 1 / 2 < r" "r \<le> of_int n"
  with False have "\<lfloor>r\<rfloor> = n - 1" by (intro floor_unique) simp_all
  with a show ?thesis by (simp add: round_even_def Let_def)
qed

lemma largest_pair_eval:
  assumes "fl64 a = Fin a" "fl64 (a + 1) = Fin a" "fl64 (a / 2) = Fin h"
    and "fl64 (a + - h) = Fin h" "fl64 (h * h) = PInf" "fl64 (1 + - h) = Fin (- h)"
  shows "rollingStdDev64 [Fin a, Fin 1] 2 ! 1 = PInf"
    and "rollingZScore64 [Fin a, Fin 1] 2 ! 1 = Fin 0"
  using assms by (simp_all add: rolling64_defs double64_ops)


lemma DBL_MAX_significand: "DBL_MAX = of_int (2 ^ 53 - 1) * 2 powi 971"
  by (simp add: DBL_MAX_def)

lemma half_DBL_MAX: "DBL_MAX / 2 = of_int (2 ^ 53 - 1) * 2 powi 970"
  by (simp add: DBL_MAX_def)

lemma fl64_DBL_MAX: "fl64 DBL_MAX = Fin DBL_MAX"
proof -
  have "round_pos (of_int (2 ^ 53 - 1) * 2 powi 971) = of_int (2 ^ 53 - 1) * 2 powi 971"
    by (rule round_pos_exact) simp_all
  then have "round_pos DBL_MAX = DBL_MAX" by (simp only: DBL_MAX_significand [symmetric])
  with DBL_MAX_pos have r: "rnd64 DBL_MAX = DBL_MAX" by (simp add: rnd64_def)
  have "\<bar>rnd64 DBL_MAX\<bar> \<le> DBL_MAX" using DBL_MAX_pos by (simp only: r)
  then have "fl64 DBL_MAX = Fin (rnd64 DBL_MAX)" by (rule fl64_small)
  then show ?thesis by (simp only: r)
qed

lemma fl64_half_DBL_MAX: "fl64 (DBL_MAX / 2) = Fin (DBL_MAX / 2)"
proof -
  have "round_pos (of_int (2 ^ 53 - 1) * 2 powi 970) = of_int (2 ^ 53 - 1) * 2 powi 970"
    by (rule round_pos_exact) simp_all
  then have "round_pos (DBL_MAX / 2) = DBL_MAX / 2" by (simp only: half_DBL_MAX [symmetric])
  with DBL_MAX_pos have r: "rnd64 (DBL_MAX / 2) = DBL_MAX / 2" by (simp add: rnd64_def)
  have "\<bar>rnd64 (DBL_MAX / 2)\<bar> \<le> DBL_MAX" using DBL_MAX_pos by (simp only: r)
  then have "fl64 (DBL_MAX / 2) = Fin (rnd64 (DBL_MAX / 2))" by (rule fl64_small)
  then show ?thesis by (simp only: r)
qed

lemma powi_970_small: "(2::real) powi (- 970) < 1 / 2"
proof -
  have "(2::real) powi (- 970) < 2 powi (- 1)" by (rule power_int_strict_increasing) simp_all
  then show ?thesis by simp
qed

lemma fl64_DBL_MAX_plus_1: "fl64 (DBL_MAX + 1) = Fin DBL_MAX"
proof -
  define q :: real where "q = of_int (2 ^ 53 - 1) + 2 powi (- 971)"
  have t0: "(0::real) < 2 powi (- 971)" by simp
  have "(2::real) powi (- 971) \<le> 2 powi (- 970)" by (rule power_int_increasing) simp_all
  with powi_970_small have t1: "(2::real) powi (- 971) < 1 / 2" by linarith
  have "(2::real) powi (- 971) * 2 powi 971 = 2 powi (- 971 + 971)"
    by (rule powi_split [symmetric])
  then have one: "(2::real) powi (- 971) * 2 powi 971 = 1" by simp
  have "q * 2 powi 971 = of_int (2 ^ 53 - 1) * 2 powi 971 + 2 powi (- 971) * 2 powi 971"
    unfolding q_def by (rule distrib_right)
  then have "q * 2 powi 971 = DBL_MAX + 1"
    by (simp only: one DBL_MAX_significand [symmetric])
  then have x: "DBL_MAX + 1 = q * 2 powi (1023 - 52)" by simp
  have m: "real_of_int (2 ^ 53 - 1) = 2 ^ 53 - 1" by simp
  have q1: "2 ^ 52 \<le> q" using t0 unfolding q_def m by simp
  have q2: "q < 2 ^ 53" using t1 unfolding q_def m by simp
  have "round_even q = 2 ^ 53 - 1"
    using t0 t1 unfolding q_def by (intro round_even_down) simp_all
  with round_pos_eval [OF x q1 q2] have "round_pos (DBL_MAX + 1) = DBL_MAX"
    by (simp add: DBL_MAX_significand)
  with DBL_MAX_pos have r: "rnd64 (DBL_MAX + 1) = DBL_MAX" by (simp add: rnd64_def)
  have "\<bar>rnd64 (DBL_MAX + 1)\<bar> \<le> DBL_MAX" using DBL_MAX_pos by (simp only: r)
  then have "fl64 (DBL_MAX + 1) = Fin (rnd64 (DBL_MAX + 1))" by (rule fl64_small)
  then show ?thesis by (simp only: r)
qed

lemma fl64_1_minus_half_DBL_MAX: "fl64 (1 + - (DBL_MAX / 2)) = Fin (- (DBL_MAX / 2))"
proof -
  define q :: real where "q = of_int (2 ^ 53 - 1) - 2 powi (- 970)"
  have t0: "(0::real) < 2 powi (- 970)" by simp
  note t1 = powi_970_small
  have "(2::real) powi (- 970) * 2 powi 970 = 2 powi (- 970 + 970)"
    by (rule powi_split [symmetric])
  then have one: "(2::real) powi (- 970) * 2 powi 970 = 1" by simp
  have "q * 2 powi 970 = of_int (2 ^ 53 - 1) * 2 powi 970 - 2 powi (- 970) * 2 powi 970"
    unfolding q_def by (rule left_diff_distrib)
  then have "q * 2 powi 970 = DBL_MAX / 2 - 1"
    by (simp only: one half_DBL_MAX [symmetric])
  then have x: "DBL_MAX / 2 - 1 = q * 2 powi (1022 - 52)" by simp
  have m: "real_of_int (2 ^ 53 - 1) = 2 ^ 53 - 1" by simp
  have q1: "2 ^ 52 \<le> q" using t1 unfolding q_def m by simp
  have q2: "q < 2 ^ 53" using t0 unfolding q_def m by simp
  have "round_even q = 2 ^ 53 - 1"
    using t0 t1 unfolding q_def by (intro round_even_up) simp_all
  with round_pos_eval [OF x q1 q2] have rp: "round_pos (DBL_MAX / 2 - 1) = DBL_MAX / 2"
    by (simp add: half_DBL_MAX)
  have big: "1 < DBL_MAX / 2" using DBL_MAX_ge by simp
  then have r: "rnd64 (DBL_MAX / 2 - 1) = DBL_MAX / 2" using rp by (simp add: rnd64_def)
  have "\<bar>rnd64 (DBL_MAX / 2 - 1)\<bar> \<le> DBL_MAX" using DBL_MAX_pos by (simp only: r)
  then have "fl64 (DBL_MAX / 2 - 1) = Fin (rnd64 (DBL_MAX / 2 - 1))" by (rule fl64_small)
  then have "fl64 (DBL_MAX / 2 - 1) = Fin (DBL_MAX / 2)" by (simp only: r)
  then have "fl64 (- (DBL_MAX / 2 - 1)) = Fin (- (DBL_MAX / 2))"
    by (simp only: fl64_minus dneg_def double.case)
  moreover have "1 + - (DBL_MAX / 2) = - (DBL_MAX / 2 - 1)" by simp
  ultimately show ?thesis by (simp only:)
qed

lemma fl64_half_DBL_MAX_squared: "fl64 (DBL_MAX / 2 * (DBL_MAX / 2)) = PInf"
proof -
  have h: "2 ^ 1022 \<le> DBL_MAX / 2" by (simp add: DBL_MAX_def)
  have "(2::real) ^ 1024 \<le> 2 ^ 1022 * 2 ^ 1022" by simp
  also have "\<dots> \<le> DBL_MAX / 2 * (DBL_MAX / 2)" using h by (intro mult_mono) simp_all
  finally have "(2::real) ^ 1024 \<le> DBL_MAX / 2 * (DBL_MAX / 2)" .
  then have "rnd64 (2 ^ 1024) \<le> rnd64 (DBL_MAX / 2 * (DBL_MAX / 2))"
    by (intro rnd64_mono) simp_all
  moreover have "rnd64 (2 ^ 1024) = 2 ^ 1024"
    using rnd64_power_of_two [of 1024] by simp
  moreover have "DBL_MAX < 2 ^ 1024" by (simp add: DBL_MAX_def)
  ultimately have "DBL_MAX < rnd64 (DBL_MAX / 2 * (DBL_MAX / 2))" by linarith
  then show ?thesis by (simp only: fl64_def Let_def if_True)
qed

lemma largest_pair_zscore64:
  "rollingStdDev64 [Fin DBL_MAX, Fin 1] 2 ! 1 = PInf"
  "rollingZScore64 [Fin DBL_MAX, Fin 1] 2 ! 1 = Fin 0"
proof -
  have d: "fl64 (DBL_MAX + - (DBL_MAX / 2)) = Fin (DBL_MAX / 2)"
    using fl64_half_DBL_MAX by simp
  note run = fl64_DBL_MAX fl64_DBL_MAX_plus_1 fl64_half_DBL_MAX d fl64_half_DBL_MAX_squared
    fl64_1_minus_half_DBL_MAX
  show "rollingStdDev64 [Fin DBL_MAX, Fin 1] 2 ! 1 = PInf"
    by (rule largest_pair_eval(1) [OF run])
  show "rollingZScore64 [Fin DBL_MAX, Fin 1] 2 ! 1 = Fin 0"
    by (rule largest_pair_eval(2) [OF run])
qed

text \<open>
  The claim as stated fails when the window's sum overflows: for the two finite
  observations \<open>2^1023, 2^1023\<close> and window 2 the sum rounds to \<open>2^1024\<close>, beyond the largest
  double, so the rolling mean and the rolling standard deviation of day 1 are \<open>+\<infinity>\<close>; the
  standard deviation is strictly positive, the history is sufficient, and the entry is
  \<open>(2^1023 - \<infinity>) / \<infinity>\<close>, NaN. The observation \<open>2^1023\<close> is a double: rounding leaves it
  unchanged.
\<close>

theorem rollingZScore_overflow_counterexample:
  "isnan (rollingZScore64 [Fin (2 ^ 1023), Fin (2 ^ 1023)] 2 ! 1)
   \<and> dgt (rollingStdDev64 [Fin (2 ^ 1023), Fin (2 ^ 1023)] 2 ! 1) (Fin 0)
   \<and> \<not> insufficient_history (length [Fin (2 ^ 1023), Fin (2 ^ 1023)]) 2 1
   \<and> is_double (Fin (2 ^ 1023))
   \<and> fl64 (2 ^ 1023) = Fin (2 ^ 1023)"
proof -
  have "\<not> insufficient_history (length [Fin (2 ^ 1023), Fin (2 ^ 1023)]) 2 1"
    by (simp add: insufficient_history_def)
  moreover have "is_double (Fin (2 ^ 1023))"
    by (simp add: is_double_def DBL_MAX_def)
  ultimately show ?thesis
    using overflowing_pair [OF fl64_2_1023 fl64_2_1024] fl64_2_1023 by blast
qed

section \<open>The backtest\<close>

declare dayLoop.simps [simp del]

lemma closePosition_values:
  "closePosition pair d s = Inr s' \<Longrightarrow> portfolioValues (fst s') = portfolioValues (fst s)"
  by (cases s) (auto simp: closePosition_def Let_def split: if_splits)

lemma closePosition_positions:
  "closePosition pair d s = Inr s' \<Longrightarrow> positions (fst s') = positions (fst s)"
  by (cases s) (auto simp: closePosition_def Let_def split: if_splits)

lemma openPosition_values:
  "openPosition pair sg d s = Inr s' \<Longrightarrow> portfolioValues (fst s') = portfolioValues (fst s)"
  by (cases s) (auto simp: openPosition_def Let_def split: if_splits)

lemma traded_values:
  assumes "(if sg \<noteq> fst (snd s) then
               (case (if fst (snd s) \<noteq> 0 then closePosition pair ex s else Inr s) of
                  Inl e \<Rightarrow> Inl e
                | Inr s1 \<Rightarrow> if sg \<noteq> 0 then openPosition pair sg ex s1 else Inr s1)
             else Inr s) = Inr t"
  shows "portfolioValues (fst t) = portfolioValues (fst s)"
proof (cases "sg \<noteq> fst (snd s)")
  case False
  with assms show ?thesis by simp
next
  case True
  with assms obtain s1 where
    s1: "(if fst (snd s) \<noteq> 0 then closePosition pair ex s else Inr s) = Inr s1"
    and t: "(if sg \<noteq> 0 then openPosition pair sg ex s1 else Inr s1) = Inr t"
    by (auto split: sum.splits)
  from s1 have "portfolioValues (fst s1) = portfolioValues (fst s)"
    by (auto split: if_splits dest: closePosition_values)
  moreover from t have "portfolioValues (fst t) = portfolioValues (fst s1)"
    by (auto split: if_splits dest: openPosition_values)
  ultimately show ?thesis by simp
qed

lemma processDay_values:
  assumes "processDay pair sigs del n day s = Inr s'"
  shows "\<exists>v. portfolioValues (fst s') = (portfolioValues (fst s))[executionDay_of del n day := v]"
proof -
  define sg where "sg = (if day < length sigs then sigs ! day else 0)"
  define ex where "ex = (if del \<and> day + 1 < n then day + 1 else day)"
  define traded where "traded =
            (if sg \<noteq> fst (snd s) then
               (case (if fst (snd s) \<noteq> 0 then closePosition pair ex s else Inr s) of
                  Inl e \<Rightarrow> Inl e
                | Inr s1 \<Rightarrow> if sg \<noteq> 0 then openPosition pair sg ex s1 else Inr s1)
             else Inr s)"
  have pd: "processDay pair sigs del n day s =
      (case traded of
           Inl e \<Rightarrow> Inl e
         | Inr (bt, currentPosition, position) \<Rightarrow>
             Inr (bt\<lparr>portfolioValues :=
                       (portfolioValues bt)[ex := calculatePortfolioValue bt (int ex)]\<rparr>,
                  currentPosition, position))"
    unfolding processDay_def Let_def sg_def ex_def traded_def ..
  with assms obtain t where t: "traded = Inr t"
    and s': "portfolioValues (fst s')
               = (portfolioValues (fst t))[ex := calculatePortfolioValue (fst t) (int ex)]"
    by (cases traded) (auto split: prod.splits)
  from traded_values [OF t [unfolded traded_def]]
  have "portfolioValues (fst t) = portfolioValues (fst s)" .
  with s' show ?thesis by (auto simp: executionDay_of_def ex_def)
qed

lemma executionDay_not_untouched:
  "lb \<le> day \<Longrightarrow> day < n \<Longrightarrow> untouched del n lb j \<Longrightarrow> executionDay_of del n day \<noteq> j"
  by (auto simp: untouched_def executionDay_of_def)

lemma dayLoop_values:
  assumes "dayLoop pair sigs del n day s = Inr s'" and "lb \<le> day"
  shows "length (portfolioValues (fst s')) = length (portfolioValues (fst s))
       \<and> (\<forall>j. untouched del n lb j \<longrightarrow>
              portfolioValues (fst s') ! j = portfolioValues (fst s) ! j)"
  using assms
proof (induction pair sigs del n day s rule: dayLoop.induct)
  case (1 pair sigs del n day s)
  show ?case
  proof (cases "day < n")
    case False
    with "1.prems" show ?thesis by (simp add: dayLoop.simps)
  next
    case True
    with "1.prems"(1) obtain s1 where s1: "processDay pair sigs del n day s = Inr s1"
      and rest: "dayLoop pair sigs del n (Suc day) s1 = Inr s'"
      by (subst (asm) dayLoop.simps) (auto split: sum.splits)
    from "1.IH" [OF True s1 rest] "1.prems"(2)
    have IH: "length (portfolioValues (fst s')) = length (portfolioValues (fst s1))"
      "\<forall>j. untouched del n lb j \<longrightarrow> portfolioValues (fst s') ! j = portfolioValues (fst s1) ! j"
      by simp_all
    from processDay_values [OF s1] obtain v where
      v: "portfolioValues (fst s1) = (portfolioValues (fst s))[executionDay_of del n day := v]"
      by blast
    have "portfolioValues (fst s1) ! j = portfolioValues (fst s) ! j" if "untouched del n lb j" for j
      using executionDay_not_untouched [OF "1.prems"(2) True that] v by simp
    with IH v show ?thesis by simp
  qed
qed

lemma pairsLoop_values:
  assumes "pairsLoop e x lb del n ps bt = Inr bt'"
  shows "length (portfolioValues bt') = length (portfolioValues bt)
       \<and> (\<forall>j. untouched del n lb j \<longrightarrow> portfolioValues bt' ! j = portfolioValues bt ! j)"
  using assms
proof (induction ps arbitrary: bt)
  case Nil
  then show ?case by simp
next
  case (Cons p ps)
  from Cons.prems obtain s1 where
    s1: "dayLoop p (generateSignals p e x lb) del n lb (bt, 0, emptyPosition) = Inr s1"
    and rest: "pairsLoop e x lb del n ps (fst s1) = Inr bt'"
    by (auto simp: Let_def split: sum.splits prod.splits)
  from dayLoop_values [OF s1 order_refl] Cons.IH [OF rest] show ?case by simp
qed

lemma calculateMetrics_values:
  "portfolioValues (calculateMetrics pow bt) = portfolioValues bt"
  by (simp add: calculateMetrics_def Let_def)

text \<open>
  C9. After \<^verbatim>\<open>runBacktest\<close> on \<open>n\<close> days with \<open>n > lookbackWindow\<close> the value series has
  length \<open>n\<close>, its entries with indices below \<open>lookbackWindow\<close> are 0.0, and so is the entry
  at \<open>lookbackWindow\<close> when execution is delayed and \<open>lookbackWindow + 1 < n\<close>.
\<close>

theorem runBacktest_leading_zeros:
  assumes run: "runBacktest pow capital e x lb del bt = Inr bt'"
    and n: "lb < getDataSize (marketData bt)"
  shows "length (portfolioValues bt') = getDataSize (marketData bt)
       \<and> take lb (portfolioValues bt') = replicate lb (Fin 0)
       \<and> (del \<and> lb + 1 < getDataSize (marketData bt) \<longrightarrow> portfolioValues bt' ! lb = Fin 0)"
proof -
  let ?n = "getDataSize (marketData bt)"
  let ?bt0 = "bt\<lparr>cash := capital, initialCapital := capital, positions := [],
                  portfolioValues := [], tradeHistory := []\<rparr>"
  from n have n0: "?n \<noteq> 0" by simp
  with run obtain bt1 where
    loop: "pairsLoop e x lb del ?n (pairs bt) (?bt0\<lparr>portfolioValues := replicate ?n (Fin 0)\<rparr>) = Inr bt1"
    and bt': "bt' = calculateMetrics pow bt1"
    by (auto simp: runBacktest_def Let_def split: sum.splits)
  from pairsLoop_values [OF loop]
  have len: "length (portfolioValues bt1) = ?n"
    and same: "\<And>j. untouched del ?n lb j \<Longrightarrow> portfolioValues bt1 ! j = replicate ?n (Fin 0) ! j"
    by simp_all
  have zero: "portfolioValues bt1 ! j = Fin 0" if "untouched del ?n lb j" for j
  proof -
    from that n have "j < ?n" by (auto simp: untouched_def)
    with same [OF that] show ?thesis by simp
  qed
  have "take lb (portfolioValues bt1) = replicate lb (Fin 0)"
  proof (rule nth_equalityI)
    show "length (take lb (portfolioValues bt1)) = length (replicate lb (Fin 0 :: double))"
      using len n by simp
  next
    fix i assume "i < length (take lb (portfolioValues bt1))"
    then have i: "i < lb" by simp
    then have "untouched del ?n lb i" by (simp add: untouched_def)
    from zero [OF this] i show "take lb (portfolioValues bt1) ! i = replicate lb (Fin 0) ! i"
      by simp
  qed
  moreover have "portfolioValues bt1 ! lb = Fin 0" if "del \<and> lb + 1 < ?n"
    using that by (intro zero) (simp add: untouched_def)
  ultimately show ?thesis using len bt' by (simp add: calculateMetrics_values)
qed


section \<open>A run on twenty days\<close>

lemma alt_z_bounds: "1 / 2 < alt_z" "alt_z \<le> 1"
proof -
  have s1: "1 \<le> sqrt (18 / 17 :: real)" by simp
  have lt: "sqrt (18 / 17 :: real) < sqrt ((32 / 17)\<^sup>2)"
    by (rule real_sqrt_less_mono) (simp add: power2_eq_square)
  have e: "sqrt ((32 / 17)\<^sup>2) = (32 / 17 :: real)"
    by (simp only: real_sqrt_abs)
  from lt have s2: "sqrt (18 / 17 :: real) < 32 / 17" by (simp only: e)
  have pos: "0 < sqrt (18 / 17 :: real)" using s1 by linarith
  have "17 * sqrt (18 / 17 :: real) < 32" using s2 by linarith
  then show "1 / 2 < alt_z"
    unfolding alt_z_def using pos by (simp add: divide_simps)
  have "16 \<le> 17 * sqrt (18 / 17 :: real)" using s1 by linarith
  then show "alt_z \<le> 1"
    unfolding alt_z_def using pos by (simp add: divide_simps)
qed

lemma alt_regression:
  "beta (linearRegression (replicate 20 (Fin 10)) alternating) = Fin 0"
  by (simp add: rep20 linearRegression_def alternating_def double_ops Let_def)

lemma alt_adf: "isStationary (adfTest alternating 1)"
  by (simp add: adfTest_varies)

lemma alt_engine_eval: "alt_engine = (newBacktester alt_data)\<lparr>pairs := [alt_pair]\<rparr>"
  by (simp add: alt_engine_def addPair_def getPriceSeries_def alt_data_def newAssetPair_def
      testCointegration_def calculateSpreads_def alt_regression [unfolded alternating_def rep20]
      alt_adf [unfolded alternating_def] alternating_def rep20
      alt_pair_def newBacktester_def Let_def double_ops)


lemma alt_zscores:
  "getZScores alt_pair 17 =
     [NaN, NaN, NaN, NaN, NaN, NaN, NaN, NaN, NaN, NaN, NaN, NaN, NaN, NaN, NaN, NaN,
      Fin alt_z, Fin (- alt_z), Fin alt_z, Fin (- alt_z)]"
proof -
  have "getZScores alt_pair 17 =
     [NaN, NaN, NaN, NaN, NaN, NaN, NaN, NaN, NaN, NaN, NaN, NaN, NaN, NaN, NaN, NaN,
      overflow alt_z, overflow (- alt_z), overflow alt_z, overflow (- alt_z)]"
    unfolding alt_z_def
    by (simp add: alt_pair_def alternating_def rolling_defs double_ops)
  moreover have "overflow alt_z = Fin alt_z" "overflow (- alt_z) = Fin (- alt_z)"
    using alt_z_bounds by (auto intro!: overflow_small)
  ultimately show ?thesis by simp
qed

lemma alt_signals:
  "generateSignals alt_pair (Fin (1 / 2)) (Fin 0) 17 =
     [0, 0, 0, 0, 0, 0, 0, 0, 0, 0, 0, 0, 0, 0, 0, 0, - 1, 0, - 1, 0]"
  using alt_z_bounds
  by (simp add: generateSignals_def alt_zscores signalStep_def double_ops)

lemma alt_data_size: "getDataSize alt_data = 20"
  by (simp add: getDataSize_def alt_data_def)

lemma alt_engine_fields:
  "marketData alt_engine = alt_data" "pairs alt_engine = [alt_pair]"
  by (simp_all add: alt_engine_eval newBacktester_def)

lemma runBacktest_alt:
  "runBacktest pow (Fin 1000) e x lb del alt_engine =
     (case pairsLoop e x lb del 20 [alt_pair] alt_start of
        Inl err \<Rightarrow> Inl err
      | Inr bt1 \<Rightarrow> Inr (calculateMetrics pow bt1))"
  by (simp add: runBacktest_def alt_start_def alt_engine_fields alt_data_size Let_def)

lemmas backtest_defs =
  processDay_def closePosition_def openPosition_def calculatePortfolioValue_def
  getDataSize_def getPriceSeries_def alt_data_def alt_pair_def alternating_def
  newBacktester_def emptyPosition_def rep20 Let_def

lemma alt_start_eval:
  "alt_start =
     (newBacktester alt_data)
       \<lparr>pairs := [alt_pair], cash := Fin 1000, initialCapital := Fin 1000,
        portfolioValues := replicate 20 (Fin 0)\<rparr>"
  by (simp add: alt_start_def alt_engine_eval newBacktester_def)

lemma alt_loop_same_day:
  "\<exists>bt1. pairsLoop (Fin (1 / 2)) (Fin 0) 17 False 20 [alt_pair] alt_start = Inr bt1
        \<and> positions bt1 = [alt_position]
        \<and> tradeHistory bt1 = [(19, Fin (100 / 11))]
        \<and> cash bt1 = Fin (11100 / 11)
        \<and> calculatePortfolioValue bt1 19 = Fin (11200 / 11)
        \<and> portfolioValues bt1 ! 19 = Fin (11200 / 11)"
  apply (simp add: alt_start_eval alt_signals dayLoop.simps)
  apply (simp add: alt_position_def backtest_defs double_ops dayLoop.simps)
  done


lemma alt_loop_delayed:
  "\<exists>bt1. pairsLoop (Fin (1 / 2)) (Fin 0) 17 True 20 [alt_pair] alt_start = Inr bt1
        \<and> portfolioValues bt1 ! 18 = Fin 1000"
  apply (simp add: alt_start_eval alt_signals dayLoop.simps)
  apply (simp add: backtest_defs double_ops dayLoop.simps)
  done

lemma calculateMetrics_keeps:
  "positions (calculateMetrics pow bt) = positions bt"
  "tradeHistory (calculateMetrics pow bt) = tradeHistory bt"
  "cash (calculateMetrics pow bt) = cash bt"
  "marketData (calculateMetrics pow bt) = marketData bt"
  "initialCapital (calculateMetrics pow bt) = initialCapital bt"
  by (simp_all add: calculateMetrics_def Let_def)

lemma calculatePortfolioValue_calculateMetrics:
  "calculatePortfolioValue (calculateMetrics pow bt) d = calculatePortfolioValue bt d"
  unfolding calculatePortfolioValue_def calculateMetrics_keeps by (rule refl)

theorem runBacktest_leading_zeros_witness:
  "\<forall>pow. \<exists>bt'.
     runBacktest pow (Fin 1000) (Fin (1 / 2)) (Fin 0) 17 True alt_engine = Inr bt'
     \<and> 17 < getDataSize (marketData alt_engine)
     \<and> 17 + 1 < getDataSize (marketData alt_engine)
     \<and> length (portfolioValues bt') = getDataSize (marketData alt_engine)
     \<and> take 17 (portfolioValues bt') = replicate 17 (Fin 0)
     \<and> portfolioValues bt' ! 17 = Fin 0
     \<and> portfolioValues bt' ! 18 = Fin 1000"
proof
  fix pow
  from alt_loop_delayed obtain bt1 where
    loop: "pairsLoop (Fin (1 / 2)) (Fin 0) 17 True 20 [alt_pair] alt_start = Inr bt1"
    and v18: "portfolioValues bt1 ! 18 = Fin 1000"
    by blast
  have run: "runBacktest pow (Fin 1000) (Fin (1 / 2)) (Fin 0) 17 True alt_engine
             = Inr (calculateMetrics pow bt1)"
    by (simp only: runBacktest_alt loop sum.case)
  have n: "17 < getDataSize (marketData alt_engine)"
    by (simp add: alt_engine_fields alt_data_size)
  have n1: "17 + 1 < getDataSize (marketData alt_engine)"
    by (simp add: alt_engine_fields alt_data_size)
  from runBacktest_leading_zeros [OF run n] n1
  have "length (portfolioValues (calculateMetrics pow bt1)) = getDataSize (marketData alt_engine)"
    "take 17 (portfolioValues (calculateMetrics pow bt1)) = replicate 17 (Fin 0)"
    "portfolioValues (calculateMetrics pow bt1) ! 17 = Fin 0"
    by simp_all
  with run n n1 v18 show "\<exists>bt'.
     runBacktest pow (Fin 1000) (Fin (1 / 2)) (Fin 0) 17 True alt_engine = Inr bt'
     \<and> 17 < getDataSize (marketData alt_engine)
     \<and> 17 + 1 < getDataSize (marketData alt_engine)
     \<and> length (portfolioValues bt') = getDataSize (marketData alt_engine)
     \<and> take 17 (portfolioValues bt') = replicate 17 (Fin 0)
     \<and> portfolioValues bt' ! 17 = Fin 0
     \<and> portfolioValues bt' ! 18 = Fin 1000"
    by (simp add: calculateMetrics_values)
qed

text \<open>
  C1. \<^verbatim>\<open>runBacktest\<close> with capital 1000, entry threshold 0.5, exit threshold 0, window 17
  and same-day execution, on the engine that accepted the pair A/B, opens one position on
  day 18 and closes it on day 19 (the only entry of the trade log). No position is open
  afterwards and the cash is 11100/11, yet the closed position is still in the list
  \<^verbatim>\<open>positions_\<close> and \<^verbatim>\<open>calculatePortfolioValue(19)\<close> adds its two legs once more: it
  returns 11200/11, which is also the value recorded for day 19.
\<close>

theorem calculatePortfolioValue_counts_closed_position:
  "\<exists>bt'. runBacktest pow (Fin 1000) (Fin (1 / 2)) (Fin 0) 17 False alt_engine = Inr bt'
        \<and> positions bt' = [alt_position]
        \<and> tradeHistory bt' = [(19, Fin (100 / 11))]
        \<and> cash bt' = Fin (11100 / 11)
        \<and> calculatePortfolioValue bt' 19 = Fin (11200 / 11)
        \<and> portfolioValues bt' ! 19 = Fin (11200 / 11)"
proof -
  from alt_loop_same_day obtain bt1 where
    loop: "pairsLoop (Fin (1 / 2)) (Fin 0) 17 False 20 [alt_pair] alt_start = Inr bt1"
    and bt1: "positions bt1 = [alt_position]"
    "tradeHistory bt1 = [(19, Fin (100 / 11))]"
    "cash bt1 = Fin (11100 / 11)"
    "calculatePortfolioValue bt1 19 = Fin (11200 / 11)"
    "portfolioValues bt1 ! 19 = Fin (11200 / 11)"
    by blast
  have "runBacktest pow (Fin 1000) (Fin (1 / 2)) (Fin 0) 17 False alt_engine
          = Inr (calculateMetrics pow bt1)"
    by (simp only: runBacktest_alt loop sum.case)
  with bt1 show ?thesis
    by (simp add: calculateMetrics_keeps calculateMetrics_values
        calculatePortfolioValue_calculateMetrics)
qed


end
